theory Spec2Isabelle
  imports Main "HOL-Library.Product_Lexorder"
begin

section \<open>Data model\<close>

text \<open>
  A presentation is an ordered list of slides; a slide has an ordered list of top-level
  shapes (\<open>slide.shapes\<close>) and optional notes. Only auto shapes, text boxes and text
  placeholders carry a \<open>text_frame\<close>; group shapes and pictures do not. All geometry is
  in EMU. Text is modelled as a \<open>string\<close> with one \<open>char\<close> per code point, so texts
  range over the code points below 256.
\<close>

record para =
  p_text :: string
  p_size :: "nat option"
  p_bold :: bool
  p_bullet :: bool

record geometry =
  g_left :: int
  g_top :: int
  g_width :: int
  g_height :: int

datatype shape =
    TextShape geometry "para list"
  | GroupShape geometry "shape list"
  | Picture geometry string

record slide =
  shapes :: "shape list"
  notes_text :: "string option"

record presentation =
  slide_width :: int
  slide_height :: int
  slides :: "slide list"

text \<open>\<open>SlideContent\<close> of \<open>app/models.py\<close>.\<close>

record slide_content =
  slide_number :: int
  title :: string
  bullet_points :: "string list"
  speaker_notes :: string
  image_concept :: "string option"

text \<open>
  The \<open>template_config\<close> dictionary. A key that is absent is \<open>None\<close>; the
  \<open>strategy\<close> entry is only logged and is left out.
\<close>

record template_config =
  unique_slides :: "int list option"
  duplicate_slides :: "int list option"

datatype error =
    ValueError string
  | IndexError

section \<open>Watermark removal\<close>

text \<open>\<open>str.lower()\<close> on code points below 256.\<close>

definition lower_char :: "char \<Rightarrow> char" where
  "lower_char c =
     (let n = (of_char c :: nat)
      in if (65 \<le> n \<and> n \<le> 90) \<or> (192 \<le> n \<and> n \<le> 222 \<and> n \<noteq> 215)
         then char_of (n + 32) else c)"

definition lower :: "string \<Rightarrow> string" where
  "lower s = map lower_char s"

text \<open>\<open>kw in text\<close> on strings.\<close>

fun is_prefix :: "string \<Rightarrow> string \<Rightarrow> bool" where
  "is_prefix [] t = True"
| "is_prefix (k # ks) [] = False"
| "is_prefix (k # ks) (c # cs) = (k = c \<and> is_prefix ks cs)"

fun contains :: "string \<Rightarrow> string \<Rightarrow> bool" where
  "contains [] kw = (kw = [])"
| "contains (c # cs) kw = (is_prefix kw (c # cs) \<or> contains cs kw)"

text \<open>\<open>text_frame.text\<close>: the paragraphs' texts joined by a line feed.\<close>

fun join_lines :: "string list \<Rightarrow> string" where
  "join_lines [] = []"
| "join_lines [l] = l"
| "join_lines (l # ls) = l @ [CHR 0x0A] @ join_lines ls"

definition frame_text :: "para list \<Rightarrow> string" where
  "frame_text ps = join_lines (map p_text ps)"

text \<open>The denylist of \<open>SlideRenderer._remove_watermarks\<close>.\<close>

definition renderer_keywords :: "string list" where
  "renderer_keywords =
     [''evaluation only'', ''created with aspose'', ''aspose.slides'', ''aspose pty ltd'',
      ''copyright'', ''evaluation'', ''aspose'', ''trial version'']"

text \<open>The denylist of \<open>WatermarkRemover.remove_watermarks\<close>.\<close>

definition remover_keywords :: "string list" where
  "remover_keywords =
     [''evaluation only'', ''created with aspose'', ''aspose.slides'', ''aspose pty ltd'',
      ''copyright 2004-2025aspose'', ''evaluation'', ''aspose'']"

text \<open>
  The test of the inner loop: the shape has a text frame and its lower-cased text contains
  a keyword.
\<close>

fun is_watermark :: "string list \<Rightarrow> shape \<Rightarrow> bool" where
  "is_watermark kws (TextShape g ps) = list_ex (contains (lower (frame_text ps))) kws"
| "is_watermark kws (GroupShape g cs) = False"
| "is_watermark kws (Picture g b) = False"

text \<open>
  One iteration of the outer loop: \<open>shapes_to_remove\<close> collects the matching shapes of
  \<open>slide.shapes\<close>, and each is then taken out of its parent.
\<close>

definition shapes_to_remove :: "string list \<Rightarrow> slide \<Rightarrow> shape list" where
  "shapes_to_remove kws s = filter (is_watermark kws) (shapes s)"

definition clean_slide :: "string list \<Rightarrow> slide \<Rightarrow> slide" where
  "clean_slide kws s = s\<lparr>shapes := filter (\<lambda>sh. \<not> is_watermark kws sh) (shapes s)\<rparr>"

definition remove_watermarks_with :: "string list \<Rightarrow> presentation \<Rightarrow> presentation" where
  "remove_watermarks_with kws prs = prs\<lparr>slides := map (clean_slide kws) (slides prs)\<rparr>"

definition total_removed :: "string list \<Rightarrow> presentation \<Rightarrow> nat" where
  "total_removed kws prs = sum_list (map (\<lambda>s. length (shapes_to_remove kws s)) (slides prs))"

definition renderer_remove_watermarks :: "presentation \<Rightarrow> presentation" where
  "renderer_remove_watermarks = remove_watermarks_with renderer_keywords"

definition remove_watermarks :: "presentation \<Rightarrow> presentation" where
  "remove_watermarks = remove_watermarks_with remover_keywords"

section \<open>Slide renderer\<close>

text \<open>
  Indexing the slide collection of the template. An index outside \<open>0..len-1\<close> raises.
\<close>

definition slide_at :: "slide list \<Rightarrow> int \<Rightarrow> error + slide" where
  "slide_at sl i =
     (if 0 \<le> i \<and> i < int (length sl) then Inr (sl ! nat i) else Inl IndexError)"

text \<open>
  The choice of the two lists. An empty dictionary is falsy and takes the \<open>else\<close> branch,
  which gives the same lists as the defaults of \<open>get\<close>.
\<close>

definition plan_lists :: "int \<Rightarrow> template_config option \<Rightarrow> int list \<times> int list" where
  "plan_lists num_template_slides template_config =
     (case template_config of
        Some c \<Rightarrow>
          (case unique_slides c of Some u \<Rightarrow> u | None \<Rightarrow> [],
           case duplicate_slides c of Some d \<Rightarrow> d | None \<Rightarrow> [2..num_template_slides - 1])
      | None \<Rightarrow> ([], [2..num_template_slides - 1]))"

text \<open>The loop over \<open>unique_slides\<close>, with the state \<open>(out, unique_added)\<close>.\<close>

fun add_unique ::
  "slide list \<Rightarrow> int \<Rightarrow> int list \<Rightarrow> slide list \<Rightarrow> int \<Rightarrow> error + (slide list \<times> int)" where
  "add_unique tmpl needed [] out added = Inr (out, added)"
| "add_unique tmpl needed (slide_num # rest) out added =
     (if added < needed then
        (case slide_at tmpl (slide_num - 1) of
           Inl e \<Rightarrow> Inl e
         | Inr source_slide \<Rightarrow> add_unique tmpl needed rest (out @ [source_slide]) (added + 1))
      else add_unique tmpl needed rest out added)"

text \<open>The loop \<open>for i in range(remaining_needed)\<close>.\<close>

fun add_duplicates ::
  "slide list \<Rightarrow> int list \<Rightarrow> nat list \<Rightarrow> slide list \<Rightarrow> error + slide list" where
  "add_duplicates tmpl dups [] out = Inr out"
| "add_duplicates tmpl dups (i # rest) out =
     (case slide_at tmpl (dups ! (i mod length dups) - 1) of
        Inl e \<Rightarrow> Inl e
      | Inr source_slide \<Rightarrow> add_duplicates tmpl dups rest (out @ [source_slide]))"

text \<open>
  The slides of \<open>out\<close> before it is saved: the cover, the unique slides, the cycled
  duplicates, the closing slide.
\<close>

definition assemble :: "slide list \<Rightarrow> int \<Rightarrow> int list \<Rightarrow> int list \<Rightarrow> error + slide list" where
  "assemble tmpl num_required_slides uniq dups =
     (let num_template_slides = int (length tmpl);
          out = [hd tmpl];
          num_content_needed = num_required_slides - 2
      in case add_unique tmpl num_content_needed uniq out 0 of
           Inl e \<Rightarrow> Inl e
         | Inr (out1, unique_added) \<Rightarrow>
             (let remaining_needed = num_content_needed - unique_added
              in (case (if remaining_needed > 0 \<and> dups \<noteq> []
                        then add_duplicates tmpl dups [0 ..< nat remaining_needed] out1
                        else Inr out1) of
                    Inl e \<Rightarrow> Inl e
                  | Inr out2 \<Rightarrow>
                      (case slide_at tmpl (num_template_slides - 1) of
                         Inl e \<Rightarrow> Inl e
                       | Inr closing_slide \<Rightarrow> Inr (out2 @ [closing_slide])))))"

definition render_presentation ::
  "presentation \<Rightarrow> slide_content list \<Rightarrow> template_config option \<Rightarrow> error + presentation" where
  "render_presentation template slides_content template_config =
     (let num_template_slides = int (length (slides template));
          num_required_slides = int (length slides_content)
      in if num_template_slides < 3
         then Inl (ValueError ''Template must have at least 3 slides'')
         else
           (case plan_lists num_template_slides template_config of
              (uniq, dups) \<Rightarrow>
                (case assemble (slides template) num_required_slides uniq dups of
                   Inl e \<Rightarrow> Inl e
                 | Inr out \<Rightarrow>
                     Inr (renderer_remove_watermarks (template\<lparr>slides := out\<rparr>)))))"

text \<open>The clones of the template slides with the given 1-based numbers.\<close>

definition clones :: "slide list \<Rightarrow> int list \<Rightarrow> slide list" where
  "clones tmpl nums = map (\<lambda>n. tmpl ! nat (n - 1)) nums"

text \<open>
  The slide numbers the two loops pass to \<open>add_clone\<close>: the first
  \<open>num_content_needed\<close> unique slides, then the duplicates in round-robin order.
\<close>

definition content_numbers :: "int \<Rightarrow> int list \<Rightarrow> int list \<Rightarrow> int list" where
  "content_numbers num_required_slides uniq dups =
     take (nat (num_required_slides - 2)) uniq @
     (if dups = [] then []
      else map (\<lambda>i. dups ! (i mod length dups))
             [0 ..< nat (num_required_slides - 2) - length uniq])"

section \<open>Slide populator\<close>

text \<open>
  What the populator takes from outside the program. \<open>float_mul x p\<close> stands for
  \<open>int(x * (p / 100))\<close> as Python computes it in binary floating point.
  \<open>fitted_size\<close> stands for the image search, the download and the floating-point fitting
  of \<open>_add_image_strict\<close>: the image path with the width and height that reach the final
  bounds test, or nothing when there is no image or an exception is caught.
\<close>

record env =
  float_mul :: "int \<Rightarrow> nat \<Rightarrow> int"
  fitted_size :: "presentation \<Rightarrow> string \<Rightarrow> string \<Rightarrow> int \<Rightarrow> int \<Rightarrow> int \<Rightarrow> int \<Rightarrow> (string \<times> int \<times> int) option"

definition new_para :: "string \<Rightarrow> para" where
  "new_para t = \<lparr>p_text = t, p_size = None, p_bold = False, p_bullet = False\<rparr>"

text \<open>\<open>str.split("\n")\<close>.\<close>

fun split_on :: "(char \<Rightarrow> bool) \<Rightarrow> string \<Rightarrow> string list" where
  "split_on sep [] = [[]]"
| "split_on sep (c # cs) =
     (if sep c then [] # split_on sep cs
      else (case split_on sep cs of [] \<Rightarrow> [[c]] | l # ls \<Rightarrow> (c # l) # ls))"

text \<open>
  \<open>text_frame.text = s\<close> replaces the content by one paragraph per line of \<open>s\<close>;
  \<open>text_frame.clear()\<close> keeps the first paragraph, emptied; \<open>add_paragraph()\<close> appends a
  paragraph. A paragraph holds the text assigned to it.
\<close>

definition frame_set_text :: "string \<Rightarrow> para list" where
  "frame_set_text s = map new_para (split_on (\<lambda>c. c = CHR 0x0A) s)"

definition frame_clear :: "para list \<Rightarrow> para list" where
  "frame_clear ps = (case ps of [] \<Rightarrow> [new_para []] | p # _ \<Rightarrow> [p\<lparr>p_text := []\<rparr>])"

text \<open>Formatting applied to \<open>paragraphs[0]\<close>.\<close>

definition format_first :: "nat \<Rightarrow> bool \<Rightarrow> para list \<Rightarrow> para list" where
  "format_first sz bold ps =
     (case ps of [] \<Rightarrow> [] | p # rest \<Rightarrow> p\<lparr>p_size := Some sz, p_bold := bold\<rparr> # rest)"

definition add_textbox :: "int \<Rightarrow> int \<Rightarrow> int \<Rightarrow> int \<Rightarrow> para list \<Rightarrow> slide \<Rightarrow> slide" where
  "add_textbox l t w h ps s =
     s\<lparr>shapes := shapes s @ [TextShape \<lparr>g_left = l, g_top = t, g_width = w, g_height = h\<rparr> ps]\<rparr>"

fun shape_geometry :: "shape \<Rightarrow> geometry" where
  "shape_geometry (TextShape g ps) = g"
| "shape_geometry (GroupShape g cs) = g"
| "shape_geometry (Picture g b) = g"

fun has_text_frame :: "shape \<Rightarrow> bool" where
  "has_text_frame (TextShape g ps) = True"
| "has_text_frame (GroupShape g cs) = False"
| "has_text_frame (Picture g b) = False"

text \<open>
  The indices of the shapes with a text frame, sorted by \<open>(top, -area)\<close>; the sort is
  stable, as Python's is.
\<close>

definition text_shapes :: "slide \<Rightarrow> nat list" where
  "text_shapes s =
     sort_key (\<lambda>i. let g = shape_geometry (shapes s ! i) in (g_top g, - (g_width g * g_height g)))
       (filter (\<lambda>i. has_text_frame (shapes s ! i)) [0 ..< length (shapes s)])"

text \<open>\<open>frame.clear()\<close> followed by \<open>add_paragraph()\<close> with text and font set.\<close>

fun replace_text :: "string \<Rightarrow> nat \<Rightarrow> bool \<Rightarrow> shape \<Rightarrow> shape" where
  "replace_text t sz bold (TextShape g ps) =
     TextShape g (frame_clear ps @ [(new_para t)\<lparr>p_size := Some sz, p_bold := bold\<rparr>])"
| "replace_text t sz bold (GroupShape g cs) = GroupShape g cs"
| "replace_text t sz bold (Picture g b) = Picture g b"

definition update_shape :: "nat \<Rightarrow> (shape \<Rightarrow> shape) \<Rightarrow> slide \<Rightarrow> slide" where
  "update_shape i f s = s\<lparr>shapes := (shapes s)[i := f (shapes s ! i)]\<rparr>"

definition add_title_slide_content_smart ::
  "env \<Rightarrow> presentation \<Rightarrow> slide \<Rightarrow> slide_content \<Rightarrow> slide" where
  "add_title_slide_content_smart e prs s content =
     (let subtitle = (case bullet_points content of [] \<Rightarrow> [] | b # _ \<Rightarrow> b);
          ts = text_shapes s
      in if length ts \<ge> 2 then
           (let s1 = update_shape (ts ! 0) (replace_text (title content) 40 True) s
            in if subtitle \<noteq> [] then update_shape (ts ! 1) (replace_text subtitle 20 False) s1
               else s1)
         else
           (let margin = 685800;
                title_left = margin;
                title_width = slide_width prs - 2 * margin;
                title_top = float_mul e (slide_height prs) 35;
                title_height = 1097280;
                s1 = add_textbox title_left title_top title_width title_height
                       (format_first 40 True (frame_set_text (title content))) s
            in if subtitle \<noteq> [] then
                 add_textbox title_left (float_mul e (slide_height prs) 52) title_width 731520
                   (format_first 20 False (frame_set_text subtitle)) s1
               else s1))"

text \<open>The final bounds test of \<open>_add_image_strict\<close> and \<open>add_picture\<close>.\<close>

definition add_image_strict ::
  "env \<Rightarrow> presentation \<Rightarrow> slide \<Rightarrow> string \<Rightarrow> string \<Rightarrow> int \<Rightarrow> int \<Rightarrow> int \<Rightarrow> int \<Rightarrow> slide" where
  "add_image_strict e prs s image_prompt image_source l t max_width max_height =
     (case fitted_size e prs image_prompt image_source l t max_width max_height of
        None \<Rightarrow> s
      | Some (path, w, h) \<Rightarrow>
          if l < 0 \<or> t < 0 \<or> l + w > slide_width prs \<or> t + h > slide_height prs then s
          else s\<lparr>shapes := shapes s @ [Picture \<lparr>g_left = l, g_top = t, g_width = w, g_height = h\<rparr> path]\<rparr>)"

text \<open>The body of the loop over the bullets: truncation and the paragraph written.\<close>

definition bullet_text :: "string \<Rightarrow> string" where
  "bullet_text bullet =
     (let max_bullet_length = 120
      in if length bullet > max_bullet_length
         then take (max_bullet_length - 3) bullet @ ''...''
         else bullet)"

definition bullet_para :: "nat \<Rightarrow> string \<Rightarrow> para" where
  "bullet_para font_size bullet =
     \<lparr>p_text = '' '' @ bullet_text bullet, p_size = Some font_size, p_bold = False,
      p_bullet = True\<rparr>"

text \<open>
  The paragraphs of the content text box. A new text box has one empty paragraph, which
  the first bullet takes over.
\<close>

definition bullet_paragraphs :: "string list \<Rightarrow> para list" where
  "bullet_paragraphs bullets0 =
     (let max_bullets = 7;
          bullets = (if length bullets0 > max_bullets then take max_bullets bullets0 else bullets0);
          font_size = (if length bullets \<le> 4 then 17 else if length bullets \<le> 6 then 15 else 12)
      in if bullets = [] then [new_para []] else map (bullet_para font_size) bullets)"

definition add_content_slide ::
  "env \<Rightarrow> presentation \<Rightarrow> slide \<Rightarrow> slide_content \<Rightarrow> string \<Rightarrow> slide" where
  "add_content_slide e prs s content image_source =
     (let margin_h = 640080;
          margin_top = 822960;
          margin_bottom = 457200;
          usable_width = slide_width prs - 2 * margin_h;
          title_left = margin_h;
          title_top = margin_top;
          title_width = usable_width;
          title_height = 640080;
          s1 = add_textbox title_left title_top title_width title_height
                 (format_first 28 True (frame_set_text (title content))) s;
          has_image = (case image_concept content of None \<Rightarrow> False | Some c \<Rightarrow> c \<noteq> [])
                      \<and> image_source \<noteq> ''none'';
          gap_after_title = 182880;
          content_top = title_top + title_height + gap_after_title;
          available_height = slide_height prs - content_top - margin_bottom;
          text_left = margin_h;
          text_width = (if has_image then float_mul e usable_width 50 else usable_width);
          gap = float_mul e usable_width 5;
          image_left = text_left + text_width + gap;
          image_width0 = float_mul e usable_width 45;
          image_width = (if image_left + image_width0 > slide_width prs - margin_h
                         then (slide_width prs - margin_h) - image_left else image_width0);
          s2 = add_textbox text_left content_top text_width available_height
                 (bullet_paragraphs (bullet_points content)) s1;
          s3 = (if has_image
                then add_image_strict e prs s2 (the (image_concept content)) image_source
                       image_left content_top image_width available_height
                else s2)
      in if speaker_notes content \<noteq> [] then s3\<lparr>notes_text := Some (speaker_notes content)\<rparr>
         else s3)"

text \<open>The loop of \<open>populate_presentation\<close> over \<open>enumerate(slides_content)\<close>.\<close>

fun populate_from ::
  "env \<Rightarrow> string \<Rightarrow> nat \<Rightarrow> nat \<Rightarrow> slide_content list \<Rightarrow> presentation \<Rightarrow> presentation" where
  "populate_from e image_source template_slide_count idx [] prs = prs"
| "populate_from e image_source template_slide_count idx (content # rest) prs =
     (if idx \<ge> length (slides prs) then prs
      else
        (let s = slides prs ! idx
         in if idx = 0 then
              populate_from e image_source template_slide_count (idx + 1) rest
                (prs\<lparr>slides := (slides prs)[idx := add_title_slide_content_smart e prs s content]\<rparr>)
            else if int idx = int template_slide_count - 1 then
              populate_from e image_source template_slide_count (idx + 1) rest prs
            else
              populate_from e image_source template_slide_count (idx + 1) rest
                (prs\<lparr>slides := (slides prs)[idx := add_content_slide e prs s content image_source]\<rparr>)))"

definition populate_presentation ::
  "env \<Rightarrow> presentation \<Rightarrow> slide_content list \<Rightarrow> string \<Rightarrow> presentation" where
  "populate_presentation e prs slides_content image_source =
     populate_from e image_source (length (slides prs)) 0 slides_content prs"

section \<open>Template analyzer\<close>

text \<open>
  The character classes of Python's \<open>re\<close> on \<open>str\<close> patterns, for code points below 256:
  \<open>\s\<close>, \<open>\d\<close> and \<open>\w\<close>.
\<close>

definition is_space :: "char \<Rightarrow> bool" where
  "is_space c = ((of_char c :: nat) \<in> set [9, 10, 11, 12, 13, 28, 29, 30, 31, 32, 133, 160])"

definition is_digit :: "char \<Rightarrow> bool" where
  "is_digit c = (let n = (of_char c :: nat) in 48 \<le> n \<and> n \<le> 57)"

definition is_word :: "char \<Rightarrow> bool" where
  "is_word c =
     (let n = (of_char c :: nat)
      in (48 \<le> n \<and> n \<le> 57) \<or> (65 \<le> n \<and> n \<le> 90) \<or> (97 \<le> n \<and> n \<le> 122) \<or> n = 95
         \<or> n \<in> set [170, 178, 179, 181, 185, 186, 188, 189, 190]
         \<or> (192 \<le> n \<and> n \<noteq> 215 \<and> n \<noteq> 247))"

text \<open>
  A literal of a pattern under \<open>re.IGNORECASE\<close>, matched at the start of the text: the
  rest of the text after it. The literals of the patterns are in lower case.
\<close>

fun match_lit :: "string \<Rightarrow> string \<Rightarrow> string option" where
  "match_lit [] t = Some t"
| "match_lit (p # ps) [] = None"
| "match_lit (p # ps) (c # cs) = (if lower_char c = p then match_lit ps cs else None)"

text \<open>
  \<open>int(m)\<close> on a run of digits. Python's limit on the number of digits of such a
  string is not modelled.
\<close>

definition digit_value :: "char \<Rightarrow> int" where
  "digit_value c = int (of_char c) - 48"

definition int_of_digits :: "string \<Rightarrow> int" where
  "int_of_digits ds = foldl (\<lambda>acc c. 10 * acc + digit_value c) 0 ds"

text \<open>
  \<open>re.findall\<close>: the matcher is tried at each position from left to right; it is given
  the character before the position and the text from the position on, and returns the
  group and the length of the match. After a match the scan resumes at its end.
\<close>

fun findall ::
  "(char option \<Rightarrow> string \<Rightarrow> (string \<times> nat) option) \<Rightarrow> nat \<Rightarrow> char option \<Rightarrow> string \<Rightarrow> string list" where
  "findall m skip prev [] = []"
| "findall m (Suc skip) prev (c # cs) = findall m skip (Some c) cs"
| "findall m 0 prev (c # cs) =
     (case m prev (c # cs) of
        Some (g, n) \<Rightarrow> g # findall m (n - 1) (Some c) cs
      | None \<Rightarrow> findall m 0 (Some c) cs)"

text \<open>\<open>re.search\<close> as a test: some position matches.\<close>

fun search :: "(char option \<Rightarrow> string \<Rightarrow> bool) \<Rightarrow> char option \<Rightarrow> string \<Rightarrow> bool" where
  "search m prev [] = m prev []"
| "search m prev (c # cs) = (m prev (c # cs) \<or> search m (Some c) cs)"

definition prev_is_word :: "char option \<Rightarrow> bool" where
  "prev_is_word prev = (case prev of None \<Rightarrow> False | Some p \<Rightarrow> is_word p)"

definition next_is_word :: "string \<Rightarrow> bool" where
  "next_is_word t = (case t of [] \<Rightarrow> False | x # _ \<Rightarrow> is_word x)"

text \<open>\<open>\s+\<close> followed by a literal: the number of white-space characters.\<close>

definition match_spaces_lit :: "string \<Rightarrow> string \<Rightarrow> (nat \<times> string) option" where
  "match_spaces_lit lit t =
     (let ws = takeWhile is_space t
      in if ws = [] then None
         else (case match_lit lit (dropWhile is_space t) of
                 None \<Rightarrow> None
               | Some rest \<Rightarrow> Some (length ws, rest)))"

text \<open>Pattern 1: \<open>slide\s+(\d+)\<close>.\<close>

definition pattern1 :: "char option \<Rightarrow> string \<Rightarrow> (string \<times> nat) option" where
  "pattern1 prev t =
     (case match_lit ''slide'' t of
        None \<Rightarrow> None
      | Some r \<Rightarrow>
          (case match_spaces_lit [] r of
             None \<Rightarrow> None
           | Some (n, r1) \<Rightarrow>
               let ds = takeWhile is_digit r1
               in if ds = [] then None else Some (ds, 5 + n + length ds)))"

text \<open>Pattern 2: \<open>(\d+)(?:st|nd|rd|th)\s+slide\<close>.\<close>

definition ordinal_suffix :: "string \<Rightarrow> string option" where
  "ordinal_suffix t =
     (case match_lit ''st'' t of Some r \<Rightarrow> Some r | None \<Rightarrow>
      (case match_lit ''nd'' t of Some r \<Rightarrow> Some r | None \<Rightarrow>
       (case match_lit ''rd'' t of Some r \<Rightarrow> Some r | None \<Rightarrow> match_lit ''th'' t)))"

definition pattern2 :: "char option \<Rightarrow> string \<Rightarrow> (string \<times> nat) option" where
  "pattern2 prev t =
     (let ds = takeWhile is_digit t
      in if ds = [] then None
         else (case ordinal_suffix (dropWhile is_digit t) of
                 None \<Rightarrow> None
               | Some r \<Rightarrow>
                   (case match_spaces_lit ''slide'' r of
                      None \<Rightarrow> None
                    | Some (n, r1) \<Rightarrow> Some (ds, length ds + 2 + n + 5))))"

text \<open>Pattern 3: \<open>\b{word}\s+slide\b\<close> for the spelled-out ordinals.\<close>

definition word_to_num :: "(string \<times> int) list" where
  "word_to_num =
     [(''first'', 1), (''second'', 2), (''third'', 3), (''fourth'', 4), (''fifth'', 5),
      (''sixth'', 6), (''seventh'', 7), (''eighth'', 8), (''ninth'', 9), (''tenth'', 10)]"

definition pattern3 :: "string \<Rightarrow> char option \<Rightarrow> string \<Rightarrow> bool" where
  "pattern3 word prev t =
     (\<not> prev_is_word prev \<and>
      (case match_lit word t of
         None \<Rightarrow> False
       | Some r \<Rightarrow>
           (case match_spaces_lit ''slide'' r of
              None \<Rightarrow> False
            | Some (n, r1) \<Rightarrow> \<not> next_is_word r1)))"

text \<open>
  Pattern 4: the sentences that contain
  \<open>(not\s+repeat|unique|once|don\'t\s+repeat|do not repeat|single|special)\<close>, and the
  numbers \<open>\b(\d+)\b\<close> in them.
\<close>

definition unique_keywords :: "char option \<Rightarrow> string \<Rightarrow> bool" where
  "unique_keywords prev t =
     ((case match_lit ''not'' t of None \<Rightarrow> False | Some r \<Rightarrow> match_spaces_lit ''repeat'' r \<noteq> None)
      \<or> match_lit ''unique'' t \<noteq> None
      \<or> match_lit ''once'' t \<noteq> None
      \<or> (case match_lit (''don'' @ [CHR 0x27] @ ''t'') t of
            None \<Rightarrow> False | Some r \<Rightarrow> match_spaces_lit ''repeat'' r \<noteq> None)
      \<or> match_lit ''do not repeat'' t \<noteq> None
      \<or> match_lit ''single'' t \<noteq> None
      \<or> match_lit ''special'' t \<noteq> None)"

definition pattern_number :: "char option \<Rightarrow> string \<Rightarrow> (string \<times> nat) option" where
  "pattern_number prev t =
     (let ds = takeWhile is_digit t
      in if ds = [] \<or> prev_is_word prev \<or> next_is_word (dropWhile is_digit t) then None
         else Some (ds, length ds))"

definition sentence_numbers :: "string \<Rightarrow> int list" where
  "sentence_numbers sentence =
     (if search unique_keywords None sentence
      then filter (\<lambda>n. 1 \<le> n \<and> n \<le> 20)
             (map int_of_digits (findall pattern_number 0 None sentence))
      else [])"

definition extract_slide_numbers :: "string \<Rightarrow> int list" where
  "extract_slide_numbers text =
     (let m1 = map int_of_digits (findall pattern1 0 None text);
          m2 = map int_of_digits (findall pattern2 0 None text);
          m3 = map snd (filter (\<lambda>(word, num). search (pattern3 word) None text) word_to_num);
          sentences = split_on (\<lambda>c. c \<in> set ''.!?;'') text;
          m4 = concat (map sentence_numbers sentences)
      in sort (remdups (m1 @ m2 @ m3 @ m4)))"

text \<open>
  The language model behind \<open>_analyze_with_llm\<close>, as a function of the three arguments of
  the prompt: the parsed JSON object with its two optional entries, or nothing when the
  call, the text extraction or the parsing raises. \<open>model = None\<close> is the analyzer without
  an API key.
\<close>

type_synonym llm = "int \<Rightarrow> string \<Rightarrow> int \<Rightarrow> template_config option"

definition get_default_strategy :: "int \<Rightarrow> int \<Rightarrow> template_config" where
  "get_default_strategy num_template_slides num_required_slides =
     (let uniq = (if num_template_slides \<ge> 2 then [2] else []);
          all_middle = [2..num_template_slides - 1];
          dups0 = filter (\<lambda>s. s \<notin> set uniq) all_middle;
          dups = (if dups0 = [] then all_middle else dups0)
      in \<lparr>unique_slides = Some uniq, duplicate_slides = Some dups\<rparr>)"

definition analyze_with_llm :: "llm \<Rightarrow> int \<Rightarrow> string \<Rightarrow> int \<Rightarrow> template_config" where
  "analyze_with_llm generate num_template_slides user_instructions num_required_slides =
     (case generate num_template_slides user_instructions num_required_slides of
        Some data \<Rightarrow>
          \<lparr>unique_slides = Some (case unique_slides data of Some u \<Rightarrow> u | None \<Rightarrow> []),
           duplicate_slides = Some (case duplicate_slides data of Some d \<Rightarrow> d | None \<Rightarrow> [])\<rparr>
      | None \<Rightarrow> get_default_strategy num_template_slides num_required_slides)"

definition analyze_template_instructions ::
  "llm option \<Rightarrow> int \<Rightarrow> string \<Rightarrow> int \<Rightarrow> template_config" where
  "analyze_template_instructions model num_template_slides user_instructions num_required_slides =
     (if model = None \<or> user_instructions = []
      then get_default_strategy num_template_slides num_required_slides
      else
        (let uniq = extract_slide_numbers user_instructions
         in if uniq \<noteq> [] then
              (let all_middle_slides = [2..num_template_slides - 1];
                   dups0 = filter (\<lambda>s. s \<notin> set uniq) all_middle_slides;
                   dups = (if dups0 = [] then all_middle_slides else dups0)
               in \<lparr>unique_slides = Some uniq, duplicate_slides = Some dups\<rparr>)
            else analyze_with_llm (the model) num_template_slides user_instructions
                   num_required_slides))"

section \<open>Request handler\<close>

text \<open>
  The errors of \<open>generate_presentation\<close>: the \<open>HTTPException\<close> it raises itself, and an
  exception of a later stage, which the handler turns into status 500.
\<close>

datatype http_error =
    HTTPException nat string
  | InternalError error

text \<open>
  What the handler takes from outside: the language model of the analyzer (or none), the
  content generator (a function of the day, the slide count and the plan) and the
  collaborators of the populator.
\<close>

record pipeline =
  analyzer_model :: "llm option"
  content_generator :: "nat \<Rightarrow> int \<Rightarrow> template_config option \<Rightarrow> slide_content list"
  populator_env :: env

text \<open>The block \<open>if template_instructions:\<close> of the handler.\<close>

definition template_config_of ::
  "llm option \<Rightarrow> presentation \<Rightarrow> string option \<Rightarrow> int \<Rightarrow> template_config option" where
  "template_config_of model template template_instructions num_slides =
     (case template_instructions of
        None \<Rightarrow> None
      | Some instr \<Rightarrow>
          if instr = [] then None
          else Some (analyze_template_instructions model (int (length (slides template)))
                       instr num_slides))"

text \<open>The loop over the days: generate the content, duplicate, populate.\<close>

fun generate_days ::
  "pipeline \<Rightarrow> presentation \<Rightarrow> template_config option \<Rightarrow> int \<Rightarrow> string \<Rightarrow> nat list \<Rightarrow>
   http_error + presentation list" where
  "generate_days p template template_config num_slides image_source [] = Inr []"
| "generate_days p template template_config num_slides image_source (day_num # days) =
     (let slides_content = content_generator p day_num num_slides template_config
      in case render_presentation template slides_content template_config of
           Inl e \<Rightarrow> Inl (InternalError e)
         | Inr duplicated_presentation \<Rightarrow>
             (let final_presentation =
                    populate_presentation (populator_env p) duplicated_presentation
                      slides_content image_source
              in case generate_days p template template_config num_slides image_source days of
                   Inl e \<Rightarrow> Inl e
                 | Inr rest \<Rightarrow> Inr (final_presentation # rest)))"

definition generate_presentation ::
  "pipeline \<Rightarrow> presentation \<Rightarrow> string option \<Rightarrow> int \<Rightarrow> int \<Rightarrow> bool \<Rightarrow>
   http_error + presentation list" where
  "generate_presentation p template template_instructions num_slides num_days use_ai_images =
     (if num_slides < 3 then Inl (HTTPException 400 ''Minimum 3 slides required'')
      else if num_days < 1 then Inl (HTTPException 400 ''Minimum 1 day required'')
      else
        (let image_source = (if use_ai_images then ''ai_generated'' else ''pexels'');
             template_config =
               template_config_of (analyzer_model p) template template_instructions num_slides
         in generate_days p template template_config num_slides image_source
              [1 ..< nat num_days + 1]))"

section \<open>Slide part names\<close>

text \<open>\<open>f"{n}"\<close> for a natural number.\<close>

fun show_nat :: "nat \<Rightarrow> string" where
  "show_nat n =
     (if n < 10 then [char_of (48 + n)] else show_nat (n div 10) @ [char_of (48 + n mod 10)])"

definition ascii_letters :: string where
  "ascii_letters = ''abcdefghijklmnopqrstuvwxyzABCDEFGHIJKLMNOPQRSTUVWXYZ''"

text \<open>
  \<open>random.choice(string.ascii_letters)\<close>: the random source is a sequence of draws, and a
  draw \<open>r\<close> picks the letter at index \<open>r mod 52\<close>.
\<close>

definition choice :: "nat \<Rightarrow> char" where
  "choice r = ascii_letters ! (r mod length ascii_letters)"

definition default_partname :: "nat \<Rightarrow> string" where
  "default_partname n = ''/ppt/slides/slide'' @ show_nat n @ ''.xml''"

definition random_partname :: "nat \<Rightarrow> (nat \<Rightarrow> nat) \<Rightarrow> nat \<Rightarrow> string" where
  "random_partname n rnd k =
     ''/ppt/slides/slide'' @ [choice (rnd k), choice (rnd (k + 1))] @ show_nat n @ ''.xml''"

text \<open>
  The loop \<open>while partname_str in existing_rels\<close>. It has no bound; a run that never
  leaves the loop is the value \<open>None\<close>. \<open>k\<close> counts the draws used so far.
\<close>

partial_function (option) partname_loop ::
  "string list \<Rightarrow> nat \<Rightarrow> (nat \<Rightarrow> nat) \<Rightarrow> nat \<Rightarrow> string \<Rightarrow> string option" where
  "partname_loop existing_rels n rnd k partname_str =
     (if partname_str \<in> set existing_rels
      then partname_loop existing_rels n rnd (k + 2) (random_partname n rnd k)
      else Some partname_str)"

declare partname_loop.simps [code]

definition generate_slide_partname :: "string list \<Rightarrow> nat \<Rightarrow> (nat \<Rightarrow> nat) \<Rightarrow> string option" where
  "generate_slide_partname existing_rels len_sldIdLst rnd =
     partname_loop existing_rels (len_sldIdLst + 1) rnd 0 (default_partname (len_sldIdLst + 1))"

text \<open>The candidates in the order the loop tries them.\<close>

definition candidate :: "nat \<Rightarrow> (nat \<Rightarrow> nat) \<Rightarrow> nat \<Rightarrow> string" where
  "candidate n rnd i = (if i = 0 then default_partname n else random_partname n rnd (2 * (i - 1)))"

text \<open>The candidates the loop tries from the state \<open>(k, s)\<close> on.\<close>

definition cand_from :: "nat \<Rightarrow> (nat \<Rightarrow> nat) \<Rightarrow> nat \<Rightarrow> string \<Rightarrow> nat \<Rightarrow> string" where
  "cand_from n rnd k s i = (if i = 0 then s else random_partname n rnd (k + 2 * (i - 1)))"

section \<open>Shape trees\<close>

text \<open>A shape with the shapes nested in it.\<close>

fun shape_tree :: "shape \<Rightarrow> shape list" where
  "shape_tree (TextShape g ps) = [TextShape g ps]"
| "shape_tree (GroupShape g cs) = GroupShape g cs # concat (map shape_tree cs)"
| "shape_tree (Picture g b) = [Picture g b]"

text \<open>
  The wording of the specification: the shape has a text frame and its lower-cased text
  contains an entry of the denylist.
\<close>

definition marked :: "string list \<Rightarrow> shape \<Rightarrow> bool" where
  "marked kws sh =
     (\<exists>g ps kw pre post. sh = TextShape g ps \<and> kw \<in> set kws
        \<and> lower (frame_text ps) = pre @ kw @ post)"

section \<open>Sample data\<close>

text \<open>A slide with one text shape, a template of such slides, a content record.\<close>

definition mk_slide :: "string \<Rightarrow> slide" where
  "mk_slide t =
     \<lparr>shapes = [TextShape \<lparr>g_left = 0, g_top = 0, g_width = 100, g_height = 100\<rparr>
                 [\<lparr>p_text = t, p_size = None, p_bold = False, p_bullet = False\<rparr>]],
      notes_text = None\<rparr>"

definition demo_template :: "string list \<Rightarrow> presentation" where
  "demo_template ts = \<lparr>slide_width = 12192000, slide_height = 6858000, slides = map mk_slide ts\<rparr>"

definition demo_record :: slide_content where
  "demo_record = \<lparr>slide_number = 1, title = ''T'', bullet_points = [], speaker_notes = [], image_concept = None\<rparr>"

definition rendered_count :: "error + presentation \<Rightarrow> error + nat" where
  "rendered_count r = (case r of Inl e \<Rightarrow> Inl e | Inr p \<Rightarrow> Inr (length (slides p)))"

definition demo_env :: env where
  "demo_env = \<lparr>float_mul = (\<lambda>x p. x * int p div 100), fitted_size = (\<lambda>prs a b l t w h. None)\<rparr>"

definition long_record :: slide_content where
  "long_record = demo_record\<lparr>bullet_points := replicate 10 (replicate 130 (CHR ''a''))\<rparr>"

definition demo_pipeline :: pipeline where
  "demo_pipeline =
     \<lparr>analyzer_model = None,
      content_generator = (\<lambda>day_num num_slides template_config. replicate (nat num_slides) demo_record),
      populator_env = demo_env\<rparr>"

definition failing_llm :: llm where
  "failing_llm = (\<lambda>num_template_slides user_instructions num_required_slides. None)"

definition six_slides :: presentation where
  "six_slides = demo_template [''s1'', ''s2'', ''s3'', ''s4'', ''s5'', ''s6'']"

definition always_zero :: "nat \<Rightarrow> nat" where
  "always_zero k = 0"

definition demo_draws :: "nat \<Rightarrow> nat" where
  "demo_draws k = (if k < 4 then k mod 2 else 30)"

definition watermark_shape :: shape where
  "watermark_shape =
     TextShape \<lparr>g_left = 0, g_top = 0, g_width = 100, g_height = 100\<rparr>
       [new_para ''Evaluation Only - Created with Aspose.Slides'']"

definition hello_shape :: shape where
  "hello_shape =
     TextShape \<lparr>g_left = 0, g_top = 200, g_width = 100, g_height = 100\<rparr> [new_para ''Hello'']"

definition marked_presentation :: presentation where
  "marked_presentation =
     \<lparr>slide_width = 12192000, slide_height = 6858000,
      slides = [\<lparr>shapes = [watermark_shape, hello_shape], notes_text = None\<rparr>]\<rparr>"

definition grouped_presentation :: presentation where
  "grouped_presentation =
     \<lparr>slide_width = 12192000, slide_height = 6858000,
      slides = [\<lparr>shapes = [GroupShape \<lparr>g_left = 0, g_top = 0, g_width = 100, g_height = 100\<rparr>
                            [watermark_shape], hello_shape],
                notes_text = None\<rparr>]\<rparr>"


section \<open>Properties of the renderer\<close>

lemma length_clean [simp]: "length (slides (remove_watermarks_with kws p)) = length (slides p)"
  by (simp add: remove_watermarks_with_def)

lemma slide_at_in_range:
  "1 \<le> s \<Longrightarrow> s \<le> int (length tmpl) \<Longrightarrow> slide_at tmpl (s - 1) = Inr (tmpl ! nat (s - 1))"
  by (simp add: slide_at_def)

lemma add_unique_none:
  "needed \<le> added \<Longrightarrow> add_unique tmpl needed us out added = Inr (out, added)"
  by (induction us) auto

lemma add_unique_ok:
  "\<forall>s \<in> set us. 1 \<le> s \<and> s \<le> int (length tmpl) \<Longrightarrow> added \<le> needed \<Longrightarrow>
   add_unique tmpl needed us out added =
     Inr (out @ clones tmpl (take (nat (needed - added)) us),
          added + int (min (length us) (nat (needed - added))))"
proof (induction us arbitrary: out added)
  case Nil
  then show ?case by (simp add: clones_def)
next
  case (Cons s us)
  show ?case
  proof (cases "added < needed")
    case True
    have k: "nat (needed - added) = Suc (nat (needed - (added + 1)))"
      using True by arith
    from Cons.prems have sl: "slide_at tmpl (s - 1) = Inr (tmpl ! nat (s - 1))"
      by (simp add: slide_at_in_range)
    have ih: "add_unique tmpl needed us (out @ [tmpl ! nat (s - 1)]) (added + 1) =
      Inr ((out @ [tmpl ! nat (s - 1)]) @ clones tmpl (take (nat (needed - (added + 1))) us),
          (added + 1) + int (min (length us) (nat (needed - (added + 1)))))"
      using Cons.prems True by (intro Cons.IH) auto
    have "add_unique tmpl needed (s # us) out added =
          add_unique tmpl needed us (out @ [tmpl ! nat (s - 1)]) (added + 1)"
      using True sl by simp
    also note ih
    finally show ?thesis by (simp add: k clones_def)
  next
    case False
    with Cons.prems have "added = needed" by simp
    then show ?thesis by (simp add: add_unique_none clones_def)
  qed
qed

lemma add_duplicates_ok:
  "dups \<noteq> [] \<Longrightarrow> \<forall>s \<in> set dups. 1 \<le> s \<and> s \<le> int (length tmpl) \<Longrightarrow>
   add_duplicates tmpl dups ixs out =
     Inr (out @ clones tmpl (map (\<lambda>i. dups ! (i mod length dups)) ixs))"
proof (induction ixs arbitrary: out)
  case Nil
  then show ?case by (simp add: clones_def)
next
  case (Cons i ixs)
  have "dups ! (i mod length dups) \<in> set dups" using Cons.prems(1) by simp
  with Cons.prems(2) have "1 \<le> dups ! (i mod length dups)" "dups ! (i mod length dups) \<le> int (length tmpl)"
    by blast+
  then have "slide_at tmpl (dups ! (i mod length dups) - 1) = Inr (tmpl ! nat (dups ! (i mod length dups) - 1))"
    by (rule slide_at_in_range)
  with Cons show ?case by (simp add: clones_def)
qed

lemma assemble_ok:
  assumes n: "3 \<le> length tmpl"
    and u: "\<forall>s \<in> set uniq. 1 \<le> s \<and> s \<le> int (length tmpl)"
    and d: "\<forall>s \<in> set dups. 1 \<le> s \<and> s \<le> int (length tmpl)"
  shows "assemble tmpl R uniq dups =
           Inr (hd tmpl # clones tmpl (content_numbers R uniq dups) @ [last tmpl])"
proof -
  have ne: "tmpl \<noteq> []" using n by auto
  have cl: "slide_at tmpl (int (length tmpl) - 1) = Inr (last tmpl)"
    using n slide_at_in_range[of "int (length tmpl)" tmpl]
    by (simp add: last_conv_nth[OF ne] nat_diff_distrib')
  show ?thesis
  proof (cases "2 \<le> R")
    case True
    have au: "add_unique tmpl (R - 2) uniq [hd tmpl] 0 =
       Inr ([hd tmpl] @ clones tmpl (take (nat (R - 2)) uniq), int (min (length uniq) (nat (R - 2))))"
      using add_unique_ok[OF u, of 0 "R - 2" "[hd tmpl]"] True by simp
    have rem: "nat (R - 2 - int (min (length uniq) (nat (R - 2)))) = nat (R - 2) - length uniq"
      using True by arith
    have rem2: "nat (R - 2 - int (length uniq)) = nat (R - 2) - length uniq"
      using True by arith
    have pos: "(R - 2 - int (min (length uniq) (nat (R - 2))) > 0) = (nat (R - 2) - length uniq > 0)"
      using True by arith
    show ?thesis
    proof (cases "dups = []")
      case True
      then show ?thesis
        by (simp add: assemble_def au cl content_numbers_def clones_def)
    next
      case False
      show ?thesis
      proof (cases "nat (R - 2) - length uniq > 0")
        case True
        with False pos show ?thesis
          by (simp add: assemble_def au cl content_numbers_def rem rem2 add_duplicates_ok[OF False d] clones_def)
      next
        case False
        with pos show ?thesis
          by (simp add: assemble_def au cl content_numbers_def clones_def)
      qed
    qed
  next
    case False
    then have "add_unique tmpl (R - 2) uniq [hd tmpl] 0 = Inr ([hd tmpl], 0)"
      by (simp add: add_unique_none)
    with False show ?thesis
      by (simp add: assemble_def cl content_numbers_def clones_def)
  qed
qed

lemma length_content_numbers:
  "dups \<noteq> [] \<or> nat (R - 2) \<le> length uniq \<Longrightarrow> length (content_numbers R uniq dups) = nat (R - 2)"
  by (auto simp: content_numbers_def)


lemma set_content_numbers: "set (content_numbers R uniq dups) \<subseteq> set uniq \<union> set dups"
proof -
  have "set (take (nat (R - 2)) uniq) \<subseteq> set uniq" by (rule set_take_subset)
  moreover have "dups \<noteq> [] \<Longrightarrow> (\<lambda>i. dups ! (i mod length dups)) ` A \<subseteq> set dups" for A
    by auto
  ultimately show ?thesis by (auto simp: content_numbers_def)
qed

lemma clones_in_template:
  "\<forall>s \<in> set nums. 1 \<le> s \<and> s \<le> int (length tmpl) \<Longrightarrow> set (clones tmpl nums) \<subseteq> set tmpl"
proof -
  assume a: "\<forall>s \<in> set nums. 1 \<le> s \<and> s \<le> int (length tmpl)"
  have "tmpl ! nat (s - 1) \<in> set tmpl" if "s \<in> set nums" for s
  proof -
    from a that have "nat (s - 1) < length tmpl" by auto
    then show ?thesis by simp
  qed
  then show ?thesis by (auto simp: clones_def)
qed

lemma render_presentation_ok:
  assumes n: "3 \<le> length (slides template)"
    and p: "plan_lists (int (length (slides template))) template_config = (uniq, dups)"
    and u: "\<forall>s \<in> set uniq. 1 \<le> s \<and> s \<le> int (length (slides template))"
    and d: "\<forall>s \<in> set dups. 1 \<le> s \<and> s \<le> int (length (slides template))"
  shows "render_presentation template slides_content template_config =
           Inr (renderer_remove_watermarks (template\<lparr>slides :=
                  hd (slides template) #
                  clones (slides template) (content_numbers (int (length slides_content)) uniq dups) @
                  [last (slides template)]\<rparr>))"
  using n by (simp add: render_presentation_def p assemble_ok[OF n u d])

text \<open>
  Claim C1, as amended. For a template of at least 3 slides and at least 3 content records,
  when every slide number of the plan lies in \<open>1..N\<close> and either the duplicate list is
  not empty or the unique list alone fills the content positions, \<open>render_presentation\<close>
  returns a presentation with exactly as many slides as content records: the cleaned clone
  of the cover first, the cleaned clone of the closing slide last, and a cleaned clone of a
  template slide at every position between.
\<close>

theorem render_presentation_slide_count:
  assumes n: "3 \<le> length (slides template)"
    and r: "3 \<le> length slides_content"
    and p: "plan_lists (int (length (slides template))) template_config = (uniq, dups)"
    and ud: "\<forall>s \<in> set uniq \<union> set dups. 1 \<le> s \<and> s \<le> int (length (slides template))"
    and e: "dups \<noteq> [] \<or> length slides_content - 2 \<le> length uniq"
  shows "\<exists>out. render_presentation template slides_content template_config = Inr out
           \<and> length (slides out) = length slides_content
           \<and> hd (slides out) = clean_slide renderer_keywords (hd (slides template))
           \<and> last (slides out) = clean_slide renderer_keywords (last (slides template))
           \<and> (\<forall>i. 1 \<le> i \<and> i < length slides_content - 1 \<longrightarrow>
                 (\<exists>s \<in> set (slides template). slides out ! i = clean_slide renderer_keywords s))"
proof -
  let ?tmpl = "slides template"
  let ?nums = "content_numbers (int (length slides_content)) uniq dups"
  let ?mid = "clones ?tmpl ?nums"
  let ?out = "renderer_remove_watermarks (template\<lparr>slides := hd ?tmpl # ?mid @ [last ?tmpl]\<rparr>)"
  from ud have u: "\<forall>s \<in> set uniq. 1 \<le> s \<and> s \<le> int (length ?tmpl)"
    and d: "\<forall>s \<in> set dups. 1 \<le> s \<and> s \<le> int (length ?tmpl)" by auto
  have ren: "render_presentation template slides_content template_config = Inr ?out"
    by (rule render_presentation_ok[OF n p u d])
  have sl: "slides ?out = map (clean_slide renderer_keywords) (hd ?tmpl # ?mid @ [last ?tmpl])"
    by (simp add: renderer_remove_watermarks_def remove_watermarks_with_def)
  have "nat (int (length slides_content) - 2) = length slides_content - 2" by arith
  with e have lm: "length ?mid = length slides_content - 2"
    using length_content_numbers[of dups "int (length slides_content)" uniq]
    by (auto simp: clones_def)
  have len: "length (slides ?out) = length slides_content"
    using r by (simp add: sl lm)
  have nums: "\<forall>s \<in> set ?nums. 1 \<le> s \<and> s \<le> int (length ?tmpl)"
    using set_content_numbers[of "int (length slides_content)" uniq dups] ud by blast
  have mid: "set ?mid \<subseteq> set ?tmpl" by (rule clones_in_template[OF nums])
  have inner: "\<exists>s \<in> set ?tmpl. slides ?out ! i = clean_slide renderer_keywords s"
    if i: "1 \<le> i \<and> i < length slides_content - 1" for i
  proof -
    from i lm have j: "i - 1 < length ?mid" by arith
    from i have "(hd ?tmpl # ?mid @ [last ?tmpl]) ! i = (?mid @ [last ?tmpl]) ! (i - 1)"
      by (cases i) auto
    also have "\<dots> = ?mid ! (i - 1)" using j by (simp add: nth_append)
    finally have eq: "(hd ?tmpl # ?mid @ [last ?tmpl]) ! i = ?mid ! (i - 1)" .
    have "i < length (hd ?tmpl # ?mid @ [last ?tmpl])" using j i by simp
    then have "slides ?out ! i = clean_slide renderer_keywords ((hd ?tmpl # ?mid @ [last ?tmpl]) ! i)"
      unfolding sl by (rule nth_map)
    with eq have "slides ?out ! i = clean_slide renderer_keywords (?mid ! (i - 1))" by simp
    moreover have "?mid ! (i - 1) \<in> set ?tmpl" using mid j nth_mem by blast
    ultimately show ?thesis by blast
  qed
  have h: "hd (slides ?out) = clean_slide renderer_keywords (hd ?tmpl)" by (simp add: sl)
  have l: "last (slides ?out) = clean_slide renderer_keywords (last ?tmpl)"
    by (simp add: sl last_map)
  from ren len h l inner show ?thesis by blast
qed

theorem render_presentation_slide_count_witness:
  "\<exists>out. render_presentation (demo_template [''s1'', ''s2'', ''s3'', ''s4''])
            (replicate 5 demo_record) None = Inr out
         \<and> length (slides out) = 5"
proof -
  let ?t = "demo_template [''s1'', ''s2'', ''s3'', ''s4'']"
  have n: "3 \<le> length (slides ?t)" by (simp add: demo_template_def)
  have r: "3 \<le> length (replicate 5 demo_record)" by simp
  have p: "plan_lists (int (length (slides ?t))) None = ([], [2, 3])"
    by (simp add: plan_lists_def demo_template_def)
  have ud: "\<forall>s \<in> set [] \<union> set [2, 3]. 1 \<le> s \<and> s \<le> int (length (slides ?t))"
    by (simp add: demo_template_def)
  have e: "[2, 3::int] \<noteq> [] \<or> length (replicate 5 demo_record) - 2 \<le> length ([]::int list)"
    by simp
  from render_presentation_slide_count[OF n r p ud e] show ?thesis by auto
qed

text \<open>
  The claim C1 as stated fails: with a plan whose duplicate list is empty the guard
  \<open>remaining_needed > 0 and duplicate_slides\<close> skips the second loop, and 5 content
  records over a 3-slide template give 3 slides.
\<close>

theorem render_presentation_slide_count_counterexample:
  "rendered_count (render_presentation (demo_template [''s1'', ''s2'', ''s3''])
     (replicate 5 demo_record)
     (Some \<lparr>unique_slides = Some [2], duplicate_slides = Some []\<rparr>)) = Inr 3
   \<and> length (replicate 5 demo_record) = 5"
  by code_simp

text \<open>
  Claim C2. When content positions remain after the unique slides and the duplicate list is
  not empty, the \<open>i\<close>-th remaining position is a clone of template slide
  \<open>duplicate[i mod len(duplicate)]\<close>.
\<close>

theorem duplicate_round_robin:
  assumes n: "3 \<le> length (slides template)"
    and p: "plan_lists (int (length (slides template))) template_config = (uniq, dups)"
    and ne: "dups \<noteq> []"
    and ud: "\<forall>s \<in> set uniq \<union> set dups. 1 \<le> s \<and> s \<le> int (length (slides template))"
  shows "render_presentation template slides_content template_config =
           Inr (renderer_remove_watermarks (template\<lparr>slides :=
                  hd (slides template) #
                  clones (slides template) (take (nat (int (length slides_content) - 2)) uniq) @
                  clones (slides template)
                    (map (\<lambda>i. dups ! (i mod length dups))
                       [0 ..< nat (int (length slides_content) - 2) - length uniq]) @
                  [last (slides template)]\<rparr>))"
proof -
  from ud have u: "\<forall>s \<in> set uniq. 1 \<le> s \<and> s \<le> int (length (slides template))"
    and d: "\<forall>s \<in> set dups. 1 \<le> s \<and> s \<le> int (length (slides template))" by auto
  show ?thesis
    using ne by (simp add: render_presentation_ok[OF n p u d] content_numbers_def clones_def)
qed

text \<open>
  With \<open>duplicate = [3, 4]\<close> and 5 remaining positions the chosen sources are
  \<open>[3, 4, 3, 4, 3]\<close>.
\<close>

theorem duplicate_round_robin_witness:
  "render_presentation (demo_template [''s1'', ''s2'', ''s3'', ''s4'', ''s5''])
     (replicate 7 demo_record) (Some \<lparr>unique_slides = Some [], duplicate_slides = Some [3, 4]\<rparr>) =
   Inr (demo_template [''s1'', ''s3'', ''s4'', ''s3'', ''s4'', ''s3'', ''s5''])"
proof -
  let ?t = "demo_template [''s1'', ''s2'', ''s3'', ''s4'', ''s5'']"
  let ?c = "Some \<lparr>unique_slides = Some [], duplicate_slides = Some [3, 4]\<rparr>"
  have n: "3 \<le> length (slides ?t)" by (simp add: demo_template_def)
  have p: "plan_lists (int (length (slides ?t))) ?c = ([], [3, 4])"
    by (simp add: plan_lists_def)
  have ne: "[3, 4::int] \<noteq> []" by simp
  have ud: "\<forall>s \<in> set [] \<union> set [3, 4]. 1 \<le> s \<and> s \<le> int (length (slides ?t))"
    by (simp add: demo_template_def)
  have rhs: "renderer_remove_watermarks (?t\<lparr>slides :=
                  hd (slides ?t) #
                  clones (slides ?t) (take (nat (int (length (replicate 7 demo_record)) - 2)) []) @
                  clones (slides ?t)
                    (map (\<lambda>i. [3, 4] ! (i mod length [3, 4::int]))
                       [0 ..< nat (int (length (replicate 7 demo_record)) - 2) - length ([]::int list)]) @
                  [last (slides ?t)]\<rparr>) =
             demo_template [''s1'', ''s3'', ''s4'', ''s3'', ''s4'', ''s3'', ''s5'']"
    by code_simp
  from duplicate_round_robin[OF n p ne ud, of "replicate 7 demo_record"] show ?thesis
    by (simp only: rhs)
qed

section \<open>Properties of the populator\<close>

lemma shapes_add_textbox [simp]:
  "shapes (add_textbox l t w h ps s) =
     shapes s @ [TextShape \<lparr>g_left = l, g_top = t, g_width = w, g_height = h\<rparr> ps]"
  by (simp add: add_textbox_def)

lemma shapes_add_image_strict_prefix:
  "\<exists>extra. shapes (add_image_strict e prs s a b l t w h) = shapes s @ extra"
  by (auto simp: add_image_strict_def split: option.splits)

lemma add_content_slide_text_box:
  "\<exists>g. shapes (add_content_slide e prs s content image_source) ! Suc (length (shapes s)) =
         TextShape g (bullet_paragraphs (bullet_points content))"
proof -
  let ?P = "\<lambda>sh. \<exists>g. sh ! Suc (length (shapes s)) = TextShape g (bullet_paragraphs (bullet_points content))"
  have base: "?P (shapes s @ [a, TextShape g (bullet_paragraphs (bullet_points content))] @ extra)"
    for a g extra
    by (simp add: nth_append)
  have img: "?P (shapes (add_image_strict e prs s2 a b l t w h))"
    if "shapes s2 = shapes s @ [x, TextShape g (bullet_paragraphs (bullet_points content))]"
    for s2 a b l t w h x g
  proof -
    obtain extra where "shapes (add_image_strict e prs s2 a b l t w h) = shapes s2 @ extra"
      using shapes_add_image_strict_prefix by blast
    with that base[of x g extra] show ?thesis by simp
  qed
  show ?thesis
    unfolding add_content_slide_def Let_def
    using base[of _ _ "[]"] by (auto intro!: img simp: nth_append)
qed

lemma bullet_paragraphs_eq:
  "bullet_paragraphs bs =
     (if bs = [] then [new_para []]
      else map (bullet_para (if length (take 7 bs) \<le> 4 then 17
                             else if length (take 7 bs) \<le> 6 then 15 else 12)) (take 7 bs))"
  by (auto simp: bullet_paragraphs_def Let_def)

lemma filter_bullets:
  "map p_text (filter p_bullet (bullet_paragraphs bs)) = map (\<lambda>b. '' '' @ bullet_text b) (take 7 bs)"
  by (simp add: bullet_paragraphs_eq bullet_para_def new_para_def comp_def)

lemma bullet_text_long:
  "length b > 120 \<Longrightarrow> bullet_text b = take 117 b @ ''...''"
  by (simp add: bullet_text_def)

text \<open>
  Claim C8. The content text box that \<open>_add_content_slide\<close> adds (the second shape it
  appends) holds the paragraphs of the bullets: at most 7 bullet paragraphs, the first 7
  bullets of the record in order, so a record with 10 bullets gives exactly 7; a bullet
  longer than 120 characters is cut to its first 117 characters followed by \<open>...\<close>.
\<close>

theorem content_slide_bullets:
  "(\<exists>g. shapes (add_content_slide e prs s content image_source) ! Suc (length (shapes s)) =
         TextShape g (bullet_paragraphs (bullet_points content)))
   \<and> map p_text (filter p_bullet (bullet_paragraphs (bullet_points content))) =
       map (\<lambda>b. '' '' @ bullet_text b) (take 7 (bullet_points content))
   \<and> length (filter p_bullet (bullet_paragraphs (bullet_points content))) \<le> 7
   \<and> (length (bullet_points content) = 10 \<longrightarrow>
        length (filter p_bullet (bullet_paragraphs (bullet_points content))) = 7)
   \<and> (\<forall>b. length b > 120 \<longrightarrow>
        bullet_text b = take 117 b @ ''...'' \<and> length (bullet_text b) = 120)"
proof -
  have len: "length (filter p_bullet (bullet_paragraphs bs)) = min 7 (length bs)" for bs
    using arg_cong[OF filter_bullets[of bs], of length] by simp
  show ?thesis
    using add_content_slide_text_box[of e prs s content image_source]
    by (simp add: filter_bullets len bullet_text_long)
qed


theorem content_slide_bullets_witness:
  "length (bullet_points long_record) = 10
   \<and> length (filter p_bullet (bullet_paragraphs (bullet_points long_record))) = 7
   \<and> length (replicate 130 (CHR ''a'')) > 120
   \<and> bullet_text (replicate 130 (CHR ''a'')) = take 117 (replicate 130 (CHR ''a'')) @ ''...''"
proof -
  have l: "length (bullet_points long_record) = 10" by (simp add: long_record_def)
  have g: "length (replicate 130 (CHR ''a'')) > 120" by simp
  from content_slide_bullets[of demo_env "demo_template [''s1'', ''s2'', ''s3'']"
      "mk_slide ''s2''" long_record "''pexels''"] l g
  show ?thesis by blast
qed

lemma populate_from_length [simp]:
  "length (slides (populate_from e src n idx cs prs)) = length (slides prs)"
  by (induction cs arbitrary: idx prs) (auto simp: Let_def)

lemma populate_from_last:
  "n = length (slides prs) \<Longrightarrow> 2 \<le> n \<Longrightarrow>
   slides (populate_from e src n idx cs prs) ! (n - 1) = slides prs ! (n - 1)"
proof (induction cs arbitrary: idx prs)
  case Nil
  then show ?case by simp
next
  case (Cons c cs)
  show ?case
  proof (cases "idx \<ge> length (slides prs)")
    case True
    then show ?thesis by simp
  next
    case False
    consider (cover) "idx = 0" | (closing) "idx \<noteq> 0" "int idx = int n - 1"
      | (content) "idx \<noteq> 0" "int idx \<noteq> int n - 1" by blast
    then show ?thesis
    proof cases
      case cover
      let ?prs = "prs\<lparr>slides := (slides prs)[idx := add_title_slide_content_smart e prs (slides prs ! idx) c]\<rparr>"
      have "slides (populate_from e src n (idx + 1) cs ?prs) ! (n - 1) = slides ?prs ! (n - 1)"
        using Cons.prems by (intro Cons.IH) auto
      with cover False Cons.prems show ?thesis by (simp add: Let_def)
    next
      case closing
      with False Cons.prems Cons.IH[of prs "idx + 1"] show ?thesis by (simp add: Let_def)
    next
      case content
      let ?prs = "prs\<lparr>slides := (slides prs)[idx := add_content_slide e prs (slides prs ! idx) c src]\<rparr>"
      have "slides (populate_from e src n (idx + 1) cs ?prs) ! (n - 1) = slides ?prs ! (n - 1)"
        using Cons.prems by (intro Cons.IH) auto
      moreover have "idx \<noteq> n - 1" using content Cons.prems by auto
      ultimately show ?thesis using content False Cons.prems by (simp add: Let_def)
    qed
  qed
qed

lemma populate_from_step:
  assumes "idx < length (slides prs)"
  shows "\<exists>p'. length (slides p') = length (slides prs) \<and>
           (\<forall>cs. populate_from e src n idx (c # cs) prs = populate_from e src n (Suc idx) cs p')"
proof -
  consider (cover) "idx = 0" | (closing) "idx \<noteq> 0" "int idx = int n - 1"
    | (content) "idx \<noteq> 0" "int idx \<noteq> int n - 1" by blast
  then show ?thesis
  proof cases
    case cover
    let ?p = "prs\<lparr>slides := (slides prs)[idx := add_title_slide_content_smart e prs (slides prs ! idx) c]\<rparr>"
    have "\<forall>cs. populate_from e src n idx (c # cs) prs = populate_from e src n (Suc idx) cs ?p"
      using cover assms by (simp add: Let_def)
    moreover have "length (slides ?p) = length (slides prs)" by simp
    ultimately show ?thesis by blast
  next
    case closing
    have "\<forall>cs. populate_from e src n idx (c # cs) prs = populate_from e src n (Suc idx) cs prs"
      using closing assms by (simp add: Let_def)
    then show ?thesis by blast
  next
    case content
    let ?p = "prs\<lparr>slides := (slides prs)[idx := add_content_slide e prs (slides prs ! idx) c src]\<rparr>"
    have "\<forall>cs. populate_from e src n idx (c # cs) prs = populate_from e src n (Suc idx) cs ?p"
      using content assms by (simp add: Let_def)
    moreover have "length (slides ?p) = length (slides prs)" by simp
    ultimately show ?thesis by blast
  qed
qed

lemma populate_from_ignores:
  "n = length (slides prs) \<Longrightarrow> 2 \<le> n \<Longrightarrow> idx + k = n - 1 \<Longrightarrow>
   populate_from e src n idx (cs[k := c']) prs = populate_from e src n idx cs prs"
proof (induction cs arbitrary: idx k prs)
  case Nil
  then show ?case by simp
next
  case (Cons c cs)
  show ?case
  proof (cases k)
    case 0
    with Cons.prems have i: "idx \<noteq> 0" "int idx = int n - 1" "\<not> length (slides prs) \<le> idx"
      by auto
    have step: "populate_from e src n idx (x # cs) prs = populate_from e src n (idx + 1) cs prs" for x
      using i by (simp add: Let_def)
    have "(c # cs)[k := c'] = c' # cs" using 0 by simp
    then show ?thesis by (simp only: step)
  next
    case (Suc k')
    with Cons.prems have lt: "idx < length (slides prs)" by auto
    from populate_from_step[OF lt, of e src n c] obtain p' where
      l: "length (slides p') = length (slides prs)" and
      st: "\<And>cs. populate_from e src n idx (c # cs) prs = populate_from e src n (Suc idx) cs p'"
      by blast
    have "populate_from e src n (Suc idx) (cs[k' := c']) p' = populate_from e src n (Suc idx) cs p'"
      using Cons.prems Suc l by (intro Cons.IH) auto
    moreover have "(c # cs)[k := c'] = c # cs[k' := c']" using Suc by simp
    ultimately show ?thesis by (simp only: st)
  qed
qed

text \<open>
  Claim C9, as amended. For a presentation of at least two slides, \<open>populate_presentation\<close>
  leaves the last slide as it is, and the content record at the last position has no effect
  on the result.
\<close>

theorem populate_keeps_closing_slide:
  assumes "2 \<le> length (slides prs)"
  shows "last (slides (populate_presentation e prs slides_content image_source)) = last (slides prs)
         \<and> (\<forall>c'. populate_presentation e prs
                    (slides_content[length (slides prs) - 1 := c']) image_source =
                  populate_presentation e prs slides_content image_source)"
proof -
  let ?n = "length (slides prs)"
  let ?out = "populate_presentation e prs slides_content image_source"
  have ne: "slides prs \<noteq> []" "slides ?out \<noteq> []"
    using assms by (auto simp: populate_presentation_def simp flip: length_greater_0_conv)
  have "slides ?out ! (?n - 1) = slides prs ! (?n - 1)"
    unfolding populate_presentation_def using assms by (intro populate_from_last) auto
  then have "last (slides ?out) = last (slides prs)"
    using ne by (simp add: last_conv_nth populate_presentation_def)
  moreover have "populate_presentation e prs (slides_content[?n - 1 := c']) image_source = ?out" for c'
    unfolding populate_presentation_def using assms by (intro populate_from_ignores) auto
  ultimately show ?thesis by blast
qed

theorem populate_keeps_closing_slide_witness:
  "2 \<le> length (slides (demo_template [''s1'', ''s2'', ''s3'']))
   \<and> last (slides (populate_presentation demo_env (demo_template [''s1'', ''s2'', ''s3''])
        (replicate 3 demo_record) ''pexels'')) = mk_slide ''s3''"
proof -
  have h: "2 \<le> length (slides (demo_template [''s1'', ''s2'', ''s3'']))"
    by (simp add: demo_template_def)
  from populate_keeps_closing_slide[OF h, of demo_env "replicate 3 demo_record" "''pexels''"] h
  show ?thesis by (simp add: demo_template_def)
qed

text \<open>
  The claim C9 as stated, for every presentation, fails on a presentation of one slide: the
  test \<open>idx == 0\<close> comes first, and the only slide gets the title of the first record.
\<close>

theorem populate_single_slide_counterexample:
  "last (slides (populate_presentation demo_env (demo_template [''s1'']) [demo_record] ''pexels''))
     \<noteq> last (slides (demo_template [''s1'']))"
  by code_simp

lemma populate_from_take:
  "populate_from e src n idx cs prs =
   populate_from e src n idx (take (length (slides prs) - idx) cs) prs"
proof (induction cs arbitrary: idx prs)
  case Nil
  then show ?case by simp
next
  case (Cons c cs)
  show ?case
  proof (cases "idx \<ge> length (slides prs)")
    case True
    then show ?thesis by simp
  next
    case False
    then have lt: "idx < length (slides prs)" by simp
    then have "length (slides prs) - idx = Suc (length (slides prs) - Suc idx)" by arith
    then have t: "take (length (slides prs) - idx) (c # cs) = c # take (length (slides prs) - Suc idx) cs"
      by (simp only: take_Suc_Cons)
    from populate_from_step[OF lt, of e src n c] obtain p' where
      l: "length (slides p') = length (slides prs)" and
      st: "\<And>cs. populate_from e src n idx (c # cs) prs = populate_from e src n (Suc idx) cs p'"
      by blast
    have "populate_from e src n (Suc idx) cs p' =
          populate_from e src n (Suc idx) (take (length (slides p') - Suc idx) cs) p'"
      by (rule Cons.IH)
    then show ?thesis by (simp only: t st l)
  qed
qed

text \<open>
  Claim C10. \<open>populate_presentation\<close> returns a presentation with the same number of
  slides, and the records beyond the number of slides have no effect: the result is the
  one for the list cut to the number of slides.
\<close>

theorem populate_ignores_surplus_records:
  "length (slides (populate_presentation e prs slides_content image_source)) = length (slides prs)
   \<and> populate_presentation e prs slides_content image_source =
       populate_presentation e prs (take (length (slides prs)) slides_content) image_source"
  using populate_from_take[of e image_source "length (slides prs)" 0 slides_content prs]
  by (simp add: populate_presentation_def)

section \<open>Properties of the request handler and the default plan\<close>

lemma assemble_few:
  assumes n: "3 \<le> length tmpl" and r: "R \<le> 2"
  shows "assemble tmpl R uniq dups = Inr [hd tmpl, last tmpl]"
proof -
  have ne: "tmpl \<noteq> []" using n by auto
  have cl: "slide_at tmpl (int (length tmpl) - 1) = Inr (last tmpl)"
    using n slide_at_in_range[of "int (length tmpl)" tmpl]
    by (simp add: last_conv_nth[OF ne] nat_diff_distrib')
  have "add_unique tmpl (R - 2) uniq [hd tmpl] 0 = Inr ([hd tmpl], 0)"
    using r by (simp add: add_unique_none)
  with r show ?thesis by (simp add: assemble_def cl)
qed

text \<open>
  Claim C5, as amended. A request for fewer than 3 slides is rejected by the handler with
  status 400 before any slide is duplicated. \<open>render_presentation\<close> itself has no such
  test: with fewer than 3 content records and a template of at least 3 slides it returns
  the cleaned cover and closing slides.
\<close>

theorem insufficient_slide_count:
  "(num_slides < 3 \<longrightarrow>
      generate_presentation p template template_instructions num_slides num_days use_ai_images =
        Inl (HTTPException 400 ''Minimum 3 slides required''))
   \<and> (3 \<le> length (slides template) \<and> length slides_content < 3 \<longrightarrow>
        render_presentation template slides_content template_config =
          Inr (renderer_remove_watermarks
                 (template\<lparr>slides := [hd (slides template), last (slides template)]\<rparr>)))"
proof -
  have "render_presentation template slides_content template_config =
          Inr (renderer_remove_watermarks
                 (template\<lparr>slides := [hd (slides template), last (slides template)]\<rparr>))"
    if n: "3 \<le> length (slides template)" and r: "length slides_content < 3"
  proof -
    obtain uniq dups where p: "plan_lists (int (length (slides template))) template_config = (uniq, dups)"
      by (cases "plan_lists (int (length (slides template))) template_config")
    have "int (length slides_content) \<le> 2" using r by simp
    from assemble_few[OF n this] n p show ?thesis
      by (simp add: render_presentation_def)
  qed
  then show ?thesis by (simp add: generate_presentation_def)
qed

theorem insufficient_slide_count_witness:
  "generate_presentation demo_pipeline six_slides None 2 1 False =
     Inl (HTTPException 400 ''Minimum 3 slides required'')
   \<and> render_presentation six_slides (replicate 2 demo_record) None =
       Inr (demo_template [''s1'', ''s6''])"
proof -
  have n: "3 \<le> length (slides six_slides) \<and> length (replicate 2 demo_record) < 3"
    by (simp add: six_slides_def demo_template_def)
  have c: "renderer_remove_watermarks
             (six_slides\<lparr>slides := [hd (slides six_slides), last (slides six_slides)]\<rparr>) =
           demo_template [''s1'', ''s6'']"
    by code_simp
  from insufficient_slide_count[of 2 demo_pipeline six_slides None 1 False "replicate 2 demo_record" None]
    n c show ?thesis by simp
qed

text \<open>
  The claim C5 as stated fails: with 2 content records \<open>render_presentation\<close> returns a
  presentation of 2 slides and raises nothing.
\<close>

theorem render_below_three_counterexample:
  "render_presentation (demo_template [''s1'', ''s2'', ''s3'']) (replicate 2 demo_record) None =
     Inr (demo_template [''s1'', ''s3''])"
  by code_simp

lemma clones_whole:
  assumes "tmpl \<noteq> []"
  shows "hd tmpl # clones tmpl nums @ [last tmpl] = clones tmpl (1 # nums @ [int (length tmpl)])"
  using assms by (simp add: clones_def hd_conv_nth last_conv_nth nat_diff_distrib')

lemma default_dups:
  assumes "4 \<le> N"
  shows "filter (\<lambda>s. s \<notin> set [2]) [2..N - 1] = [3..N - 1]" and "[3..N - 1] \<noteq> []"
proof -
  have "[2..N - 1] = 2 # [3..N - 1]" using assms by (simp add: upto_rec1)
  moreover have "filter (\<lambda>s. s \<noteq> 2) [3..N - 1] = [3..N - 1]" by (simp add: filter_id_conv)
  ultimately show "filter (\<lambda>s. s \<notin> set [2]) [2..N - 1] = [3..N - 1]" by simp
  show "[3..N - 1] \<noteq> []" using assms by simp
qed

lemma get_default_strategy_eq:
  "4 \<le> N \<Longrightarrow>
   get_default_strategy N R = \<lparr>unique_slides = Some [2], duplicate_slides = Some [3..N - 1]\<rparr>"
  using default_dups[of N] by (simp add: get_default_strategy_def Let_def)

lemma upt7: "[0 ..< 7] = [0, 1, 2, 3, 4, 5, 6::nat]" by code_simp
lemma upto25: "[2..5] = [2, 3, 4, 5::int]" by code_simp
lemma upto35: "[3..5] = [3, 4, 5::int]" by code_simp

text \<open>
  Claim C3, as amended. Without instruction text the handler passes no plan, and the
  renderer's own default has no unique slide and every interior slide \<open>2..N-1\<close> as a
  duplicate; for 6 slides and 9 records the sources are \<open>[1,2,3,4,5,2,3,4,6]\<close>. The
  default heuristic of the analyzer, which an analyzer without a model returns, has slide 2
  unique and, for \<open>N \<ge> 4\<close>, the slides \<open>3..N-1\<close> as duplicates; with that plan the
  sources for 6 slides and 9 records are \<open>[1,2,3,4,5,3,4,5,6]\<close>.
\<close>

theorem default_allocation:
  assumes n: "3 \<le> length (slides template)"
  shows "(template_instructions = None \<or> template_instructions = Some [] \<longrightarrow>
            template_config_of model template template_instructions num_slides = None
            \<and> plan_lists (int (length (slides template))) None =
                ([], [2..int (length (slides template)) - 1]))
       \<and> (model = None \<longrightarrow>
            analyze_template_instructions model N instr R = get_default_strategy N R)
       \<and> (4 \<le> N \<longrightarrow>
            get_default_strategy N R =
              \<lparr>unique_slides = Some [2], duplicate_slides = Some [3..N - 1]\<rparr>)
       \<and> (length (slides template) = 6 \<and> length slides_content = 9 \<longrightarrow>
            render_presentation template slides_content None =
              Inr (renderer_remove_watermarks
                     (template\<lparr>slides := clones (slides template) [1, 2, 3, 4, 5, 2, 3, 4, 6]\<rparr>))
            \<and> render_presentation template slides_content (Some (get_default_strategy 6 9)) =
              Inr (renderer_remove_watermarks
                     (template\<lparr>slides := clones (slides template) [1, 2, 3, 4, 5, 3, 4, 5, 6]\<rparr>)))"
proof -
  have a: "template_config_of model template template_instructions num_slides = None"
    if "template_instructions = None \<or> template_instructions = Some []"
    using that by (auto simp: template_config_of_def)
  have b: "plan_lists (int (length (slides template))) None =
             ([], [2..int (length (slides template)) - 1])"
    by (simp add: plan_lists_def)
  have c: "analyze_template_instructions model N instr R = get_default_strategy N R"
    if "model = None"
    using that by (simp add: analyze_template_instructions_def)
  have d: "render_presentation template slides_content None =
              Inr (renderer_remove_watermarks
                     (template\<lparr>slides := clones (slides template) [1, 2, 3, 4, 5, 2, 3, 4, 6]\<rparr>))
            \<and> render_presentation template slides_content (Some (get_default_strategy 6 9)) =
              Inr (renderer_remove_watermarks
                     (template\<lparr>slides := clones (slides template) [1, 2, 3, 4, 5, 3, 4, 5, 6]\<rparr>))"
    if l: "length (slides template) = 6" and r: "length slides_content = 9"
  proof -
    have ne: "slides template \<noteq> []" using l by auto
    have p1: "plan_lists (int (length (slides template))) None = ([], [2, 3, 4, 5])"
      by (simp add: plan_lists_def l upto25)
    have p2: "plan_lists (int (length (slides template))) (Some (get_default_strategy 6 9)) =
                ([2], [3, 4, 5])"
      by (simp add: plan_lists_def get_default_strategy_eq upto35)
    have c1: "content_numbers 9 [] [2, 3, 4, 5] = [2, 3, 4, 5, 2, 3, 4]"
      by (simp add: content_numbers_def upt7)
    have c2: "content_numbers 9 [2] [3, 4, 5] = [2, 3, 4, 5, 3, 4, 5]"
      by code_simp
    have r1: "render_presentation template slides_content None =
        Inr (renderer_remove_watermarks (template\<lparr>slides :=
               hd (slides template) # clones (slides template) (content_numbers 9 [] [2, 3, 4, 5]) @
               [last (slides template)]\<rparr>))"
      using render_presentation_ok[OF n p1, of slides_content] l r by simp
    have r2: "render_presentation template slides_content (Some (get_default_strategy 6 9)) =
        Inr (renderer_remove_watermarks (template\<lparr>slides :=
               hd (slides template) # clones (slides template) (content_numbers 9 [2] [3, 4, 5]) @
               [last (slides template)]\<rparr>))"
      using render_presentation_ok[OF n p2, of slides_content] l r by simp
    show ?thesis
      unfolding r1 r2 c1 c2 clones_whole[OF ne] l by simp
  qed
  have e: "4 \<le> N \<longrightarrow> get_default_strategy N R =
              \<lparr>unique_slides = Some [2], duplicate_slides = Some [3..N - 1]\<rparr>"
    by (simp add: get_default_strategy_eq)
  show ?thesis
  proof (intro conjI impI)
    assume "template_instructions = None \<or> template_instructions = Some []"
    then show "template_config_of model template template_instructions num_slides = None" by (rule a)
  next
    show "plan_lists (int (length (slides template))) None =
            ([], [2..int (length (slides template)) - 1])" by (rule b)
  next
    assume "model = None"
    then show "analyze_template_instructions model N instr R = get_default_strategy N R" by (rule c)
  next
    assume "4 \<le> N"
    then show "get_default_strategy N R =
              \<lparr>unique_slides = Some [2], duplicate_slides = Some [3..N - 1]\<rparr>"
      by (rule get_default_strategy_eq)
  next
    assume h: "length (slides template) = 6 \<and> length slides_content = 9"
    then show "render_presentation template slides_content None =
              Inr (renderer_remove_watermarks
                     (template\<lparr>slides := clones (slides template) [1, 2, 3, 4, 5, 2, 3, 4, 6]\<rparr>))"
      using d by blast
    from h show "render_presentation template slides_content (Some (get_default_strategy 6 9)) =
              Inr (renderer_remove_watermarks
                     (template\<lparr>slides := clones (slides template) [1, 2, 3, 4, 5, 3, 4, 5, 6]\<rparr>))"
      using d by blast
  qed
qed

theorem default_allocation_witness:
  "3 \<le> length (slides six_slides)
   \<and> template_config_of (Some failing_llm) six_slides None 9 = None
   \<and> get_default_strategy 6 9 = \<lparr>unique_slides = Some [2], duplicate_slides = Some [3, 4, 5]\<rparr>
   \<and> render_presentation six_slides (replicate 9 demo_record) None =
       Inr (demo_template [''s1'', ''s2'', ''s3'', ''s4'', ''s5'', ''s2'', ''s3'', ''s4'', ''s6''])
   \<and> render_presentation six_slides (replicate 9 demo_record) (Some (get_default_strategy 6 9)) =
       Inr (demo_template [''s1'', ''s2'', ''s3'', ''s4'', ''s5'', ''s3'', ''s4'', ''s5'', ''s6''])"
proof -
  have n: "3 \<le> length (slides six_slides)" by (simp add: six_slides_def demo_template_def)
  have l: "length (slides six_slides) = 6 \<and> length (replicate 9 demo_record) = 9"
    by (simp add: six_slides_def demo_template_def)
  have e1: "renderer_remove_watermarks
              (six_slides\<lparr>slides := clones (slides six_slides) [1, 2, 3, 4, 5, 2, 3, 4, 6]\<rparr>) =
            demo_template [''s1'', ''s2'', ''s3'', ''s4'', ''s5'', ''s2'', ''s3'', ''s4'', ''s6'']"
    by code_simp
  have e2: "renderer_remove_watermarks
              (six_slides\<lparr>slides := clones (slides six_slides) [1, 2, 3, 4, 5, 3, 4, 5, 6]\<rparr>) =
            demo_template [''s1'', ''s2'', ''s3'', ''s4'', ''s5'', ''s3'', ''s4'', ''s5'', ''s6'']"
    by code_simp
  have u: "[3..6 - 1] = [3, 4, 5::int]" by code_simp
  note t = default_allocation[OF n, where template_instructions = None and model = "Some failing_llm"
      and num_slides = 9 and N = 6 and R = 9 and instr = "[]"
      and slides_content = "replicate 9 demo_record"]
  from t have a: "template_config_of (Some failing_llm) six_slides None 9 = None" by blast
  from t have "get_default_strategy 6 9 =
      \<lparr>unique_slides = Some [2], duplicate_slides = Some [3..6 - 1]\<rparr>" by simp
  then have g: "get_default_strategy 6 9 =
      \<lparr>unique_slides = Some [2], duplicate_slides = Some [3, 4, 5]\<rparr>" by (simp only: u)
  from t l have r1: "render_presentation six_slides (replicate 9 demo_record) None =
      Inr (renderer_remove_watermarks
             (six_slides\<lparr>slides := clones (slides six_slides) [1, 2, 3, 4, 5, 2, 3, 4, 6]\<rparr>))"
    by blast
  from t l have r2: "render_presentation six_slides (replicate 9 demo_record)
        (Some (get_default_strategy 6 9)) =
      Inr (renderer_remove_watermarks
             (six_slides\<lparr>slides := clones (slides six_slides) [1, 2, 3, 4, 5, 3, 4, 5, 6]\<rparr>))"
    by blast
  from n a g r1[unfolded e1] r2[unfolded e2] show ?thesis by blast
qed

text \<open>
  The claim C3 as stated fails: without instruction text the plan of the handler is
  \<open>None\<close> and the sources for 6 slides and 9 records are \<open>[1,2,3,4,5,2,3,4,6]\<close>, not
  \<open>[1,2,3,4,5,3,4,5,6]\<close>.
\<close>

theorem default_allocation_counterexample:
  "template_config_of None six_slides None 9 = None
   \<and> render_presentation six_slides (replicate 9 demo_record)
        (template_config_of None six_slides None 9) =
       Inr (demo_template [''s1'', ''s2'', ''s3'', ''s4'', ''s5'', ''s2'', ''s3'', ''s4'', ''s6''])
   \<and> demo_template [''s1'', ''s2'', ''s3'', ''s4'', ''s5'', ''s2'', ''s3'', ''s4'', ''s6''] \<noteq>
       demo_template [''s1'', ''s2'', ''s3'', ''s4'', ''s5'', ''s3'', ''s4'', ''s5'', ''s6'']"
  by code_simp

section \<open>Properties of the analyzer\<close>

lemma interior_dups:
  assumes n: "3 \<le> N"
    and d: "d = (if filter (\<lambda>s. s \<notin> set u) [2..N - 1] = [] then [2..N - 1]
                 else filter (\<lambda>s. s \<notin> set u) [2..N - 1])"
  shows "d \<noteq> [] \<and> set d \<subseteq> {2..N - 1} \<and> 1 \<notin> set d \<and> N \<notin> set d
         \<and> (\<not> {2..N - 1} \<subseteq> set u \<longrightarrow> set u \<inter> set d = {})
         \<and> ({2..N - 1} \<subseteq> set u \<longrightarrow> d = [2..N - 1])"
proof -
  have ne: "[2..N - 1] \<noteq> []" using n by simp
  have e: "(filter (\<lambda>s. s \<notin> set u) [2..N - 1] = []) = ({2..N - 1} \<subseteq> set u)"
    by (auto simp: filter_empty_conv)
  have sub: "set d \<subseteq> {2..N - 1}" using d by auto
  then have "1 \<notin> set d" "N \<notin> set d" by auto
  moreover have "d \<noteq> []" using d ne by auto
  moreover have "set u \<inter> set d = {}" if "\<not> {2..N - 1} \<subseteq> set u"
    using that d e by auto
  moreover have "d = [2..N - 1]" if "{2..N - 1} \<subseteq> set u"
    using that d e by simp
  ultimately show ?thesis using sub by blast
qed

text \<open>
  Claim C4, as amended. For a template of \<open>N \<ge> 3\<close> slides, a plan that
  \<open>analyze_template_instructions\<close> produces by the default heuristic or by pattern
  extraction has a duplicate list that is not empty and lies in the interior range
  \<open>2..N-1\<close>, so neither the cover nor the closing slide is in it; the unique list is
  \<open>[2]\<close> or the extracted numbers; the two lists are disjoint unless every interior slide
  is unique, and then the duplicate list is the whole interior.
\<close>

theorem plan_invariant:
  assumes n: "3 \<le> N"
    and route: "model = None \<or> instr = [] \<or> extract_slide_numbers instr \<noteq> []
                \<or> the model N instr R = None"
  shows "\<exists>u d. analyze_template_instructions model N instr R =
                 \<lparr>unique_slides = Some u, duplicate_slides = Some d\<rparr>
           \<and> (u = [2] \<or> u = extract_slide_numbers instr)
           \<and> d \<noteq> [] \<and> set d \<subseteq> {2..N - 1} \<and> 1 \<notin> set d \<and> N \<notin> set d
           \<and> (\<not> {2..N - 1} \<subseteq> set u \<longrightarrow> set u \<inter> set d = {})
           \<and> ({2..N - 1} \<subseteq> set u \<longrightarrow> d = [2..N - 1])"
proof -
  let ?dups = "\<lambda>u. if filter (\<lambda>s. s \<notin> set u) [2..N - 1] = [] then [2..N - 1]
                    else filter (\<lambda>s. s \<notin> set u) [2..N - 1]"
  have def: "get_default_strategy N R = \<lparr>unique_slides = Some [2], duplicate_slides = Some (?dups [2])\<rparr>"
    using n by (simp add: get_default_strategy_def Let_def)
  consider (default) "analyze_template_instructions model N instr R = get_default_strategy N R"
    | (extracted) "extract_slide_numbers instr \<noteq> []"
        "analyze_template_instructions model N instr R =
           \<lparr>unique_slides = Some (extract_slide_numbers instr),
            duplicate_slides = Some (?dups (extract_slide_numbers instr))\<rparr>"
    using route
    by (cases "model = None \<or> instr = []"; cases "extract_slide_numbers instr = []")
       (auto simp: analyze_template_instructions_def analyze_with_llm_def Let_def)
  then show ?thesis
  proof cases
    case default
    from interior_dups[OF n refl, of "[2]"] default def show ?thesis
      by (intro exI[of _ "[2]"] exI[of _ "?dups [2]"]) simp
  next
    case extracted
    from interior_dups[OF n refl, of "extract_slide_numbers instr"] extracted(2) show ?thesis
      by (intro exI[of _ "extract_slide_numbers instr"]
                exI[of _ "?dups (extract_slide_numbers instr)"]) simp
  qed
qed

theorem plan_invariant_witness:
  "analyze_template_instructions (Some failing_llm) 10
     ''slide 2 and slide 5 are unique, don't repeat them'' 12 =
     \<lparr>unique_slides = Some [2, 5], duplicate_slides = Some [3, 4, 6, 7, 8, 9]\<rparr>
   \<and> set [2, 5] \<inter> set [3, 4, 6, 7, 8, 9::int] = {}"
proof -
  let ?i = "''slide 2 and slide 5 are unique, don't repeat them''"
  have e: "extract_slide_numbers ?i = [2, 5]" by code_simp
  have a: "analyze_template_instructions (Some failing_llm) 10 ?i 12 =
     \<lparr>unique_slides = Some [2, 5], duplicate_slides = Some [3, 4, 6, 7, 8, 9]\<rparr>"
    by code_simp
  have n: "(3::int) \<le> 10" by simp
  have r: "Some failing_llm = None \<or> ?i = [] \<or> extract_slide_numbers ?i \<noteq> []
           \<or> the (Some failing_llm) 10 ?i 12 = None"
    by (simp add: e)
  from plan_invariant[OF n r] obtain u d where
    ud: "analyze_template_instructions (Some failing_llm) 10 ?i 12 =
           \<lparr>unique_slides = Some u, duplicate_slides = Some d\<rparr>"
    and dis: "\<not> {2..10 - 1} \<subseteq> set u \<longrightarrow> set u \<inter> set d = {}"
    by blast
  from ud a have u: "u = [2, 5]" and d: "d = [3, 4, 6, 7, 8, 9]" by simp_all
  have "\<not> {2..10 - 1} \<subseteq> set [2, 5::int]"
  proof
    assume "{2..10 - 1} \<subseteq> set [2, 5::int]"
    moreover have "(3::int) \<in> {2..10 - 1}" by simp
    ultimately have "(3::int) \<in> set [2, 5]" by (rule subsetD)
    then show False by simp
  qed
  with dis u d have "set [2, 5] \<inter> set [3, 4, 6, 7, 8, 9::int] = {}" by blast
  with a show ?thesis by blast
qed

text \<open>
  The claim C4 as stated fails: for a template of 3 slides the default heuristic puts
  slide 2 in both lists, and the extracted numbers are not cut to the interior range.
\<close>

theorem plan_invariant_counterexample:
  "analyze_template_instructions None 3 [] 5 =
     \<lparr>unique_slides = Some [2], duplicate_slides = Some [2]\<rparr>
   \<and> analyze_template_instructions (Some failing_llm) 5 ''slide 1 and slide 9 are unique'' 7 =
       \<lparr>unique_slides = Some [1, 9], duplicate_slides = Some [2, 3, 4]\<rparr>"
  by code_simp

section \<open>Properties of the part name generator\<close>

lemma cand_from_Suc:
  "cand_from n rnd k s (Suc i) = cand_from n rnd (k + 2) (random_partname n rnd k) i"
  by (cases i) (simp_all add: cand_from_def)

lemma partname_loop_sound:
  assumes "partname_loop ex0 n0 rnd0 k0 s0 = Some p0"
  shows "\<exists>i. p0 = cand_from n0 rnd0 k0 s0 i \<and> p0 \<notin> set ex0
             \<and> (\<forall>j<i. cand_from n0 rnd0 k0 s0 j \<in> set ex0)"
proof (rule partname_loop.raw_induct[where
      P = "\<lambda>ex n rnd k s p. \<exists>i. p = cand_from n rnd k s i \<and> p \<notin> set ex
             \<and> (\<forall>j<i. cand_from n rnd k s j \<in> set ex)", OF _ assms], goal_cases)
  case (1 loop ex n rnd k s p)
  show ?case
  proof (cases "s \<in> set ex")
    case False
    with 1(2) have "p = s" by simp
    with False show ?thesis by (intro exI[of _ 0]) (simp add: cand_from_def)
  next
    case True
    with 1(2) have "loop ex n rnd (k + 2) (random_partname n rnd k) = Some p" by simp
    from 1(1)[OF this] obtain i where
      i: "p = cand_from n rnd (k + 2) (random_partname n rnd k) i" "p \<notin> set ex"
         "\<forall>j<i. cand_from n rnd (k + 2) (random_partname n rnd k) j \<in> set ex"
      by blast
    have "cand_from n rnd k s j \<in> set ex" if "j < Suc i" for j
    proof (cases j)
      case 0
      with True show ?thesis by (simp add: cand_from_def)
    next
      case (Suc j')
      with that i(3) show ?thesis by (simp add: cand_from_Suc)
    qed
    with i show ?thesis by (intro exI[of _ "Suc i"]) (simp add: cand_from_Suc)
  qed
qed


lemma partname_loop_complete:
  "cand_from n rnd k s i \<notin> set ex \<Longrightarrow> \<forall>j<i. cand_from n rnd k s j \<in> set ex \<Longrightarrow>
   partname_loop ex n rnd k s = Some (cand_from n rnd k s i)"
proof (induction i arbitrary: k s)
  case 0
  then have "s \<notin> set ex" by (simp add: cand_from_def)
  then show ?case by (subst partname_loop.simps) (simp add: cand_from_def)
next
  case (Suc i)
  from Suc.prems(2) have "cand_from n rnd k s 0 \<in> set ex" by blast
  then have s: "s \<in> set ex" by (simp add: cand_from_def)
  have a: "cand_from n rnd (k + 2) (random_partname n rnd k) i \<notin> set ex"
    using Suc.prems(1) by (simp add: cand_from_Suc)
  have b: "\<forall>j<i. cand_from n rnd (k + 2) (random_partname n rnd k) j \<in> set ex"
  proof (intro allI impI)
    fix j assume "j < i"
    then have "Suc j < Suc i" by simp
    with Suc.prems(2) have "cand_from n rnd k s (Suc j) \<in> set ex" by blast
    then show "cand_from n rnd (k + 2) (random_partname n rnd k) j \<in> set ex"
      by (simp add: cand_from_Suc)
  qed
  have "partname_loop ex n rnd k s = partname_loop ex n rnd (k + 2) (random_partname n rnd k)"
    using s by (subst partname_loop.simps) simp
  also have "\<dots> = Some (cand_from n rnd (k + 2) (random_partname n rnd k) i)"
    by (rule Suc.IH[OF a b])
  finally show ?case by (simp add: cand_from_Suc)
qed

lemma candidate_cand_from: "candidate n rnd i = cand_from n rnd 0 (default_partname n) i"
  by (simp add: candidate_def cand_from_def)

lemma generate_slide_partname_iff:
  "generate_slide_partname ex len rnd = Some p \<longleftrightarrow>
   (\<exists>i. p = candidate (len + 1) rnd i \<and> p \<notin> set ex
        \<and> (\<forall>j<i. candidate (len + 1) rnd j \<in> set ex))"
proof
  assume "generate_slide_partname ex len rnd = Some p"
  then have "partname_loop ex (len + 1) rnd 0 (default_partname (len + 1)) = Some p"
    by (simp add: generate_slide_partname_def)
  from partname_loop_sound[OF this]
  show "\<exists>i. p = candidate (len + 1) rnd i \<and> p \<notin> set ex
             \<and> (\<forall>j<i. candidate (len + 1) rnd j \<in> set ex)"
    by (simp only: candidate_cand_from)
next
  assume "\<exists>i. p = candidate (len + 1) rnd i \<and> p \<notin> set ex
             \<and> (\<forall>j<i. candidate (len + 1) rnd j \<in> set ex)"
  then obtain i where i: "p = cand_from (len + 1) rnd 0 (default_partname (len + 1)) i"
    "cand_from (len + 1) rnd 0 (default_partname (len + 1)) i \<notin> set ex"
    "\<forall>j<i. cand_from (len + 1) rnd 0 (default_partname (len + 1)) j \<in> set ex"
    unfolding candidate_cand_from by blast
  from partname_loop_complete[OF i(2) i(3)] i(1)
  show "generate_slide_partname ex len rnd = Some p"
    by (simp add: generate_slide_partname_def)
qed

lemma generate_slide_partname_None:
  "generate_slide_partname ex len rnd = None \<longleftrightarrow> (\<forall>i. candidate (len + 1) rnd i \<in> set ex)"
proof
  assume n: "generate_slide_partname ex len rnd = None"
  show "\<forall>i. candidate (len + 1) rnd i \<in> set ex"
  proof (rule ccontr)
    assume "\<not> (\<forall>i. candidate (len + 1) rnd i \<in> set ex)"
    then obtain i where "candidate (len + 1) rnd i \<notin> set ex" by blast
    then have ex: "\<exists>i. candidate (len + 1) rnd i \<notin> set ex" by blast
    define m where "m = (LEAST i. candidate (len + 1) rnd i \<notin> set ex)"
    have m1: "candidate (len + 1) rnd m \<notin> set ex"
      unfolding m_def using ex by (rule LeastI_ex)
    have m2: "\<forall>j<m. candidate (len + 1) rnd j \<in> set ex"
      unfolding m_def using not_less_Least by blast
    from m1 m2 have "generate_slide_partname ex len rnd = Some (candidate (len + 1) rnd m)"
      using generate_slide_partname_iff by blast
    with n show False by simp
  qed
next
  assume a: "\<forall>i. candidate (len + 1) rnd i \<in> set ex"
  show "generate_slide_partname ex len rnd = None"
  proof (cases "generate_slide_partname ex len rnd")
    case None
    then show ?thesis .
  next
    case (Some p)
    then obtain i where "p = candidate (len + 1) rnd i" "p \<notin> set ex"
      using generate_slide_partname_iff by blast
    with a show ?thesis by blast
  qed
qed

text \<open>
  Claim C6, as amended. On a collision \<open>generate_slide_partname\<close> draws a two-letter
  suffix and tries again, for as long as the candidate collides and with no bound on the
  number of retries: it returns exactly the first candidate that is not an existing
  relationship target, and it never returns when every candidate collides. No failure is
  raised.
\<close>

theorem generate_slide_partname_unbounded:
  "(generate_slide_partname existing_rels len rnd = Some p \<longleftrightarrow>
      (\<exists>i. p = candidate (len + 1) rnd i \<and> p \<notin> set existing_rels
           \<and> (\<forall>j<i. candidate (len + 1) rnd j \<in> set existing_rels)))
   \<and> (generate_slide_partname existing_rels len rnd = None \<longleftrightarrow>
      (\<forall>i. candidate (len + 1) rnd i \<in> set existing_rels))"
  using generate_slide_partname_iff generate_slide_partname_None by blast

theorem generate_slide_partname_unbounded_witness:
  "generate_slide_partname [''/ppt/slides/slide3.xml'', ''/ppt/slides/slideab3.xml''] 2 demo_draws =
     Some ''/ppt/slides/slideEE3.xml''
   \<and> (\<exists>i. ''/ppt/slides/slideEE3.xml'' = candidate (2 + 1) demo_draws i
          \<and> (\<forall>j<i. candidate (2 + 1) demo_draws j \<in>
                      set [''/ppt/slides/slide3.xml'', ''/ppt/slides/slideab3.xml'']))"
proof -
  have e: "generate_slide_partname [''/ppt/slides/slide3.xml'', ''/ppt/slides/slideab3.xml''] 2
             demo_draws = Some ''/ppt/slides/slideEE3.xml''"
    by code_simp
  from generate_slide_partname_unbounded[of
      "[''/ppt/slides/slide3.xml'', ''/ppt/slides/slideab3.xml'']" 2 demo_draws
      "''/ppt/slides/slideEE3.xml''"] e
  show ?thesis by blast
qed

text \<open>
  The claim C6 as stated fails: when the default name and the drawn name are both taken
  and the random source keeps drawing the same letters, the loop never ends and no failure
  is raised.
\<close>

theorem generate_slide_partname_counterexample:
  "generate_slide_partname [''/ppt/slides/slide1.xml'', ''/ppt/slides/slideaa1.xml''] 0 always_zero
     = None"
proof -
  have d: "default_partname (Suc 0) = ''/ppt/slides/slide1.xml''" by code_simp
  have r: "random_partname (Suc 0) always_zero k = ''/ppt/slides/slideaa1.xml''" for k
    unfolding random_partname_def always_zero_def by code_simp
  have "candidate (0 + 1) always_zero i \<in>
          set [''/ppt/slides/slide1.xml'', ''/ppt/slides/slideaa1.xml'']" for i
    by (simp add: candidate_def d r)
  then show ?thesis by (simp only: generate_slide_partname_None) simp
qed

section \<open>Properties of the watermark removers\<close>

lemma is_prefix_iff: "is_prefix kw t \<longleftrightarrow> (\<exists>post. t = kw @ post)"
  by (induction kw t rule: is_prefix.induct) auto

lemma contains_iff: "contains t kw \<longleftrightarrow> (\<exists>pre post. t = pre @ kw @ post)"
proof (induction t)
  case Nil
  then show ?case by simp
next
  case (Cons c cs)
  show ?case
  proof
    assume "contains (c # cs) kw"
    then consider "is_prefix kw (c # cs)" | "contains cs kw" by auto
    then show "\<exists>pre post. c # cs = pre @ kw @ post"
    proof cases
      case 1
      then obtain post where "c # cs = kw @ post" unfolding is_prefix_iff by blast
      then have "c # cs = [] @ kw @ post" by simp
      then show ?thesis by blast
    next
      case 2
      with Cons.IH obtain pre post where "cs = pre @ kw @ post" by blast
      then have "c # cs = (c # pre) @ kw @ post" by simp
      then show ?thesis by blast
    qed
  next
    assume "\<exists>pre post. c # cs = pre @ kw @ post"
    then obtain pre post where e: "c # cs = pre @ kw @ post" by blast
    show "contains (c # cs) kw"
    proof (cases pre)
      case Nil
      with e have "is_prefix kw (c # cs)" unfolding is_prefix_iff by auto
      then show ?thesis by simp
    next
      case (Cons x pre')
      with e have "cs = pre' @ kw @ post" by simp
      with Cons.IH have "contains cs kw" by blast
      then show ?thesis by simp
    qed
  qed
qed

lemma is_watermark_iff: "is_watermark kws sh \<longleftrightarrow> marked kws sh"
  by (cases sh) (auto simp: marked_def list_ex_iff contains_iff)

lemma lower_append: "lower (a @ b) = lower a @ lower b"
  by (simp add: lower_def)

lemma evaluation_only_marked:
  assumes "''evaluation only'' \<in> set kws"
    and "frame_text ps = pre @ ''Evaluation Only - Created with'' @ post"
  shows "marked kws (TextShape g ps)"
proof -
  have l: "lower ''Evaluation Only - Created with'' = ''evaluation only'' @ '' - created with''"
    by code_simp
  have "lower (frame_text ps) = lower pre @ ''evaluation only'' @ ('' - created with'' @ lower post)"
    by (simp only: assms(2) lower_append l append_assoc)
  with assms(1) show ?thesis unfolding marked_def by blast
qed

lemma remove_watermarks_with_slides:
  "i < length (slides prs) \<Longrightarrow>
   slides (remove_watermarks_with kws prs) ! i =
     (slides prs ! i)\<lparr>shapes := filter (\<lambda>sh. \<not> marked kws sh) (shapes (slides prs ! i))\<rparr>"
  by (simp add: remove_watermarks_with_def clean_slide_def is_watermark_iff)

lemma remove_watermarks_with_unchanged:
  assumes "\<forall>s \<in> set (slides prs). \<forall>sh \<in> set (shapes s). \<not> marked kws sh"
  shows "remove_watermarks_with kws prs = prs"
proof -
  have "clean_slide kws s = s" if "s \<in> set (slides prs)" for s
  proof -
    from assms that have "filter (\<lambda>sh. \<not> is_watermark kws sh) (shapes s) = shapes s"
      by (simp add: filter_id_conv is_watermark_iff)
    then show ?thesis by (simp add: clean_slide_def)
  qed
  then have "map (clean_slide kws) (slides prs) = slides prs" by (simp add: map_idI)
  then show ?thesis by (simp add: remove_watermarks_with_def)
qed

text \<open>
  Claim C7, as amended. Both watermark removers keep the number of slides and take from
  every slide exactly the members of \<open>slide.shapes\<close> that have a text frame whose
  lower-cased text contains an entry of the denylist; shapes nested in a group are not
  visited. A member of \<open>slide.shapes\<close> whose text contains
  \<open>Evaluation Only - Created with\<close> is absent afterwards, a member whose text contains
  no entry is kept, and a presentation without such a member comes back unchanged.
\<close>

theorem sanitize_top_level_shapes:
  assumes f: "(f = remove_watermarks \<and> kws = remover_keywords)
              \<or> (f = renderer_remove_watermarks \<and> kws = renderer_keywords)"
  shows "length (slides (f prs)) = length (slides prs)
       \<and> (\<forall>i<length (slides prs).
            slides (f prs) ! i =
              (slides prs ! i)\<lparr>shapes := filter (\<lambda>sh. \<not> marked kws sh) (shapes (slides prs ! i))\<rparr>
            \<and> (\<forall>g ps pre post.
                  frame_text ps = pre @ ''Evaluation Only - Created with'' @ post \<longrightarrow>
                  TextShape g ps \<notin> set (shapes (slides (f prs) ! i)))
            \<and> (\<forall>sh \<in> set (shapes (slides prs ! i)).
                  \<not> marked kws sh \<longrightarrow> sh \<in> set (shapes (slides (f prs) ! i))))
       \<and> ((\<forall>s \<in> set (slides prs). \<forall>sh \<in> set (shapes s). \<not> marked kws sh) \<longrightarrow> f prs = prs)"
proof -
  from f have fk: "f = remove_watermarks_with kws" and ev: "''evaluation only'' \<in> set kws"
    by (auto simp: remove_watermarks_def renderer_remove_watermarks_def remover_keywords_def
        renderer_keywords_def)
  have a: "length (slides (f prs)) = length (slides prs)"
    by (simp add: fk remove_watermarks_with_def)
  have b: "slides (f prs) ! i =
              (slides prs ! i)\<lparr>shapes := filter (\<lambda>sh. \<not> marked kws sh) (shapes (slides prs ! i))\<rparr>"
    if "i < length (slides prs)" for i
    unfolding fk using that by (rule remove_watermarks_with_slides)
  have c: "TextShape g ps \<notin> set (shapes (slides (f prs) ! i))"
    if "i < length (slides prs)" "frame_text ps = pre @ ''Evaluation Only - Created with'' @ post"
    for i g ps pre post
    using evaluation_only_marked[OF ev that(2), of g] by (simp add: b[OF that(1)])
  have d: "sh \<in> set (shapes (slides (f prs) ! i))"
    if "i < length (slides prs)" "sh \<in> set (shapes (slides prs ! i))" "\<not> marked kws sh" for i sh
    using that by (simp add: b)
  have e: "f prs = prs" if "\<forall>s \<in> set (slides prs). \<forall>sh \<in> set (shapes s). \<not> marked kws sh"
    unfolding fk using that by (rule remove_watermarks_with_unchanged)
  from a b c d e show ?thesis by blast
qed

theorem sanitize_top_level_shapes_witness:
  "slides (renderer_remove_watermarks marked_presentation) ! 0 =
     \<lparr>shapes = [hello_shape], notes_text = None\<rparr>
   \<and> watermark_shape \<notin> set (shapes (slides (renderer_remove_watermarks marked_presentation) ! 0))
   \<and> renderer_remove_watermarks (demo_template [''s1'', ''s2'']) = demo_template [''s1'', ''s2'']"
proof -
  have r: "(renderer_remove_watermarks = remove_watermarks \<and> renderer_keywords = remover_keywords)
           \<or> (renderer_remove_watermarks = renderer_remove_watermarks \<and> renderer_keywords = renderer_keywords)"
    by simp
  note t = sanitize_top_level_shapes[OF r, of marked_presentation]
  have i: "0 < length (slides marked_presentation)" by (simp add: marked_presentation_def)
  have ft: "frame_text [new_para ''Evaluation Only - Created with Aspose.Slides''] =
              [] @ ''Evaluation Only - Created with'' @ '' Aspose.Slides''"
    by (simp add: frame_text_def new_para_def)
  from t i ft have w: "watermark_shape \<notin> set (shapes (slides (renderer_remove_watermarks marked_presentation) ! 0))"
    unfolding watermark_shape_def by blast
  have e1: "slides (renderer_remove_watermarks marked_presentation) ! 0 =
     \<lparr>shapes = [hello_shape], notes_text = None\<rparr>" by code_simp
  have e2: "renderer_remove_watermarks (demo_template [''s1'', ''s2'']) = demo_template [''s1'', ''s2'']"
    by code_simp
  from w e1 e2 show ?thesis by blast
qed

text \<open>
  The claim C7 as stated, for every shape, fails on a text shape inside a group: the loop
  runs over \<open>slide.shapes\<close> only, a group has no text frame, and the shape with the
  evaluation text is still in the shape tree afterwards.
\<close>

theorem sanitize_nested_shape_counterexample:
  "remove_watermarks grouped_presentation = grouped_presentation
   \<and> renderer_remove_watermarks grouped_presentation = grouped_presentation
   \<and> watermark_shape \<in> set (concat (map shape_tree (shapes (hd (slides grouped_presentation)))))
   \<and> contains (lower (frame_text [new_para ''Evaluation Only - Created with Aspose.Slides'']))
        ''evaluation only''"
  by code_simp

end
